theory Spec2Isabelle
  imports
    Main
    "HOL-Library.Char_ord"
    "HOL-Library.List_Lexorder"
    "HOL-Library.AList"
    "HOL-Library.Multiset"
begin

section \<open>Data model of the chat client (package domain)\<close>

text \<open>
  Go strings are byte sequences; \<^typ>\<open>string\<close> is a list of 8-bit characters, and the
  order on it (lexicographic, characters by their code) is the order Go's \<open><\<close> and
  \<open>sort.Strings\<close> use. A \<open>time.Time\<close> is modelled by the instant it denotes, an integer
  count of nanoseconds; \<open>t.Before(u)\<close> is \<open>t < u\<close>.
\<close>

type_synonym time = int

record User =
  User_Id :: string
  User_Name :: string
  User_Address :: string
  User_Port :: int

record Message =
  Message_ChatId :: string
  Message_UserId :: string
  Message_UserName :: string
  Message_Text :: string
  Message_At :: time
  Message_ErrorMessage :: bool

record Chat =
  Chat_Id :: string
  Chat_OwnerUser :: User
  Chat_Users :: "User list"
  Chat_Content :: "Message list"
  Chat_Offline :: bool

text \<open>The errors of package data; the wrapped ones carry the ids of their message.\<close>

datatype store_error =
  UserNotInChatErr string string
  | ChatNotFoundErr string
  | WrongNewChatUsersErr

text \<open>\<open>Chat.GetUser\<close>: the first remote user with the id, else the owner, else an error.\<close>

fun findUser :: "User list \<Rightarrow> string \<Rightarrow> User option" where
  "findUser [] i = None"
| "findUser (u # us) i = (if User_Id u = i then Some u else findUser us i)"

definition GetUser :: "Chat \<Rightarrow> string \<Rightarrow> User option" where
  "GetUser c i =
     (case findUser (Chat_Users c) i of
        Some u \<Rightarrow> Some u
      | None \<Rightarrow> if i = User_Id (Chat_OwnerUser c) then Some (Chat_OwnerUser c) else None)"

section \<open>Library functions used by the store\<close>

text \<open>\<open>strings.Join\<close>.\<close>

fun Join :: "string list \<Rightarrow> string \<Rightarrow> string" where
  "Join [] sep = []"
| "Join [x] sep = x"
| "Join (x # y # ys) sep = x @ sep @ Join (y # ys) sep"

text \<open>
  \<open>base64.StdEncoding.EncodeToString\<close>: three bytes give four characters of the
  standard alphabet; a last group of one or two bytes is padded with \<open>=\<close>.
\<close>

definition encodeStd :: string where
  "encodeStd = ''ABCDEFGHIJKLMNOPQRSTUVWXYZabcdefghijklmnopqrstuvwxyz0123456789+/''"

definition b64 :: "nat \<Rightarrow> char" where
  "b64 n = encodeStd ! (n mod 64)"

fun EncodeToString :: "string \<Rightarrow> string" where
  "EncodeToString [] = []"
| "EncodeToString [a] =
     (let v = of_char a * 65536 :: nat
      in [b64 (v div 262144), b64 (v div 4096), CHR ''='', CHR ''=''])"
| "EncodeToString [a, b] =
     (let v = of_char a * 65536 + of_char b * 256 :: nat
      in [b64 (v div 262144), b64 (v div 4096), b64 (v div 64), CHR ''=''])"
| "EncodeToString (a # b # c # rest) =
     (let v = of_char a * 65536 + of_char b * 256 + of_char c :: nat
      in [b64 (v div 262144), b64 (v div 4096), b64 (v div 64), b64 v] @ EncodeToString rest)"

section \<open>The in-memory store (package inmemory)\<close>

text \<open>
  The store's state: the current user and the map of chats by id. The Go map is an
  association list with distinct keys: \<open>s.chats[k]\<close> is \<open>map_of\<close>, \<open>s.chats[k] = c\<close> is
  \<open>AList.update\<close>, \<open>delete\<close> is \<open>AList.delete\<close>, and a \<open>range\<close> loop visits the list in
  order. The two notification channels do not influence the chats (a full channel drops
  the event) and are left out of the state.
\<close>

record store =
  currentUser :: User
  chats :: "(string \<times> Chat) list"

definition NewStore :: "User \<Rightarrow> store" where
  "NewStore cu = \<lparr>currentUser = cu, chats = []\<rparr>"

definition GetChat :: "store \<Rightarrow> string \<Rightarrow> store_error + Chat" where
  "GetChat s chatId =
     (case map_of (chats s) chatId of
        None \<Rightarrow> Inl (ChatNotFoundErr chatId)
      | Some c \<Rightarrow> Inr c)"

definition GetChats :: "store \<Rightarrow> (string \<times> Chat) list" where
  "GetChats s = chats s"

text \<open>
  \<open>buildChat\<close>: the loop that fills \<open>userIds\<close> after the current user's id, returning the
  error at the first supplied user who is the current user.
\<close>

fun userIdsLoop :: "string \<Rightarrow> User list \<Rightarrow> string list \<Rightarrow> store_error + string list" where
  "userIdsLoop cur [] userIds = Inr userIds"
| "userIdsLoop cur (u # us) userIds =
     (if User_Id u = cur then Inl WrongNewChatUsersErr
      else userIdsLoop cur us (userIds @ [User_Id u]))"

definition buildChat :: "store \<Rightarrow> User list \<Rightarrow> store_error + Chat" where
  "buildChat s users =
     (case userIdsLoop (User_Id (currentUser s)) users [User_Id (currentUser s)] of
        Inl e \<Rightarrow> Inl e
      | Inr userIds \<Rightarrow>
          Inr \<lparr>Chat_Id = EncodeToString (Join (sort userIds) ''_''),
               Chat_OwnerUser = currentUser s,
               Chat_Users = users,
               Chat_Content = [],
               Chat_Offline = False\<rparr>)"

text \<open>\<open>storeChat\<close>: a chat already stored under the id keeps its content.\<close>

definition storeChat :: "store \<Rightarrow> Chat \<Rightarrow> store" where
  "storeChat s chat =
     (let chat' = (case map_of (chats s) (Chat_Id chat) of
                     Some c \<Rightarrow> chat\<lparr>Chat_Content := Chat_Content c\<rparr>
                   | None \<Rightarrow> chat)
      in s\<lparr>chats := AList.update (Chat_Id chat) chat' (chats s)\<rparr>)"

text \<open>
  \<open>AddChatLine\<close>. \<open>sort.Slice\<close> is a library function whose result is only specified
  up to the order of elements that compare equal (it is not stable), so it is a
  parameter \<open>sortSlice\<close>, called with the comparison the source passes,
  \<open>c.Content[i].At.Before(c.Content[j].At)\<close>. The result pairs the returned error
  (\<open>None\<close> for \<open>nil\<close>) with the store after the call.
\<close>

type_synonym sorter = "(Message \<Rightarrow> Message \<Rightarrow> bool) \<Rightarrow> Message list \<Rightarrow> Message list"

definition atBefore :: "Message \<Rightarrow> Message \<Rightarrow> bool" where
  "atBefore a b = (Message_At a < Message_At b)"

definition AddChatLine :: "sorter \<Rightarrow> store \<Rightarrow> Message \<Rightarrow> store_error option \<times> store" where
  "AddChatLine sortSlice s message =
     (case map_of (chats s) (Message_ChatId message) of
        None \<Rightarrow> (Some (ChatNotFoundErr (Message_ChatId message)), s)
      | Some c \<Rightarrow>
          (case GetUser c (Message_UserId message) of
             None \<Rightarrow>
               (Some (UserNotInChatErr (Message_UserId message) (Message_ChatId message)), s)
           | Some u \<Rightarrow>
               (let message' = message\<lparr>Message_UserName := User_Name u\<rparr>;
                    c' = c\<lparr>Chat_Content := sortSlice atBefore (Chat_Content c @ [message'])\<rparr>
                in (None, s\<lparr>chats := AList.update (Message_ChatId message) c' (chats s)\<rparr>))))"

text \<open>
  \<open>RefreshUsers\<close>: the first loop builds and stores one chat per supplied user, skipping
  the current user and deleting each stored id from the snapshot \<open>chats\<close>; the second
  loop stores what is left of the snapshot as offline. Go leaves the order of a \<open>range\<close>
  over a map open; the second loop visits the snapshot in list order, and its result is
  the same for every order (lemma \<open>offlineLoop_order\<close>).
\<close>

fun refreshLoop ::
  "store \<Rightarrow> (string \<times> Chat) list \<Rightarrow> User list \<Rightarrow> store_error option \<times> store \<times> (string \<times> Chat) list"
where
  "refreshLoop s snapshot [] = (None, s, snapshot)"
| "refreshLoop s snapshot (u # us) =
     (if User_Id u = User_Id (currentUser s) then refreshLoop s snapshot us
      else (case buildChat s [u] of
              Inl err \<Rightarrow> (Some err, s, snapshot)
            | Inr chat \<Rightarrow>
                refreshLoop (storeChat s chat) (AList.delete (Chat_Id chat) snapshot) us))"

fun offlineLoop :: "store \<Rightarrow> (string \<times> Chat) list \<Rightarrow> store" where
  "offlineLoop s [] = s"
| "offlineLoop s ((k, c) # cs) = offlineLoop (storeChat s (c\<lparr>Chat_Offline := True\<rparr>)) cs"

definition RefreshUsers :: "store \<Rightarrow> User list \<Rightarrow> store_error option \<times> store" where
  "RefreshUsers s users =
     (case refreshLoop s (GetChats s) users of
        (Some err, s', snapshot) \<Rightarrow> (Some err, s')
      | (None, s', snapshot) \<Rightarrow> (None, offlineLoop s' snapshot))"

subsection \<open>Specification vocabulary for the store\<close>

text \<open>
  The documented contract of \<open>sort.Slice\<close> for the comparison \<open>atBefore\<close>: the result
  is a rearrangement of the slice in which no element is before an earlier one.
\<close>

definition sortsByAt :: "sorter \<Rightarrow> bool" where
  "sortsByAt sortSlice =
     (\<forall>xs. mset (sortSlice atBefore xs) = mset xs \<and>
           sorted_wrt (\<lambda>a b. \<not> atBefore b a) (sortSlice atBefore xs))"

text \<open>
  The insertion sort that Go's \<open>sort.Slice\<close> runs on slices of at most 12 elements: each
  element moves left past the elements it is less than.
\<close>

fun insertLess :: "('a \<Rightarrow> 'a \<Rightarrow> bool) \<Rightarrow> 'a \<Rightarrow> 'a list \<Rightarrow> 'a list" where
  "insertLess lt x [] = [x]"
| "insertLess lt x (y # ys) =
     (if list_ex (\<lambda>z. \<not> lt x z) (y # ys) then y # insertLess lt x ys else x # y # ys)"

definition insertionSort :: "('a \<Rightarrow> 'a \<Rightarrow> bool) \<Rightarrow> 'a list \<Rightarrow> 'a list" where
  "insertionSort lt xs = foldl (\<lambda>acc x. insertLess lt x acc) [] xs"

text \<open>The states a store can be in: created by \<open>NewStore\<close>, changed by its two mutators.\<close>

inductive reachable :: "sorter \<Rightarrow> User \<Rightarrow> store \<Rightarrow> bool" for sortSlice :: sorter and cu :: User where
  init: "reachable sortSlice cu (NewStore cu)"
| refresh: "reachable sortSlice cu s \<Longrightarrow> reachable sortSlice cu (snd (RefreshUsers s users))"
| addLine: "reachable sortSlice cu s \<Longrightarrow> reachable sortSlice cu (snd (AddChatLine sortSlice s m))"

text \<open>The map discipline of the chats: one entry per key, each chat under its own id.\<close>

definition storeInv :: "store \<Rightarrow> bool" where
  "storeInv s = (distinct (map fst (chats s)) \<and> list_all (\<lambda>(k, c). Chat_Id c = k) (chats s))"

text \<open>The id \<open>buildChat\<close> gives the chat of owner \<open>a\<close> with the single user \<open>b\<close>.\<close>

definition pairChatId :: "User \<Rightarrow> User \<Rightarrow> string" where
  "pairChatId a b = EncodeToString (Join (sort [User_Id a, User_Id b]) ''_'')"

text \<open>The participants' ids of a chat: the remote users' and the owner's.\<close>

definition participantIds :: "Chat \<Rightarrow> string set" where
  "participantIds c = insert (User_Id (Chat_OwnerUser c)) (User_Id ` set (Chat_Users c))"

text \<open>The content stored under a chat id; a missing chat has none.\<close>

definition contentOf :: "store \<Rightarrow> string \<Rightarrow> Message list" where
  "contentOf s k = (case map_of (chats s) k of Some c \<Rightarrow> Chat_Content c | None \<Rightarrow> [])"

text \<open>
  The supplied user that decides the chat stored under \<open>k\<close> by \<open>RefreshUsers\<close>: the last
  one in the list who is not the current user and whose chat id is \<open>k\<close>.
\<close>

definition lastFor :: "User \<Rightarrow> User list \<Rightarrow> string \<Rightarrow> User option" where
  "lastFor cu users k =
     find (\<lambda>u. User_Id u \<noteq> User_Id cu \<and> pairChatId cu u = k) (rev users)"

text \<open>The chat that \<open>RefreshUsers\<close> stores for a supplied user, with the content it keeps.\<close>

definition builtChat :: "User \<Rightarrow> User \<Rightarrow> Message list \<Rightarrow> Chat" where
  "builtChat cu u content =
     \<lparr>Chat_Id = pairChatId cu u, Chat_OwnerUser = cu, Chat_Users = [u],
      Chat_Content = content, Chat_Offline = False\<rparr>"

text \<open>
  The name the roster of a chat has for a user id: that of the first remote user with
  the id, else the owner's.
\<close>

definition rosterName :: "Chat \<Rightarrow> string \<Rightarrow> string" where
  "rosterName c i =
     (case find (\<lambda>u. User_Id u = i) (Chat_Users c) of
        Some u \<Rightarrow> User_Name u
      | None \<Rightarrow> User_Name (Chat_OwnerUser c))"

text \<open>No chat lists a user with the current user's id; every content is ordered by time.\<close>

definition usersExcludeOwner :: "store \<Rightarrow> bool" where
  "usersExcludeOwner s =
     list_all (\<lambda>(k, c). list_all (\<lambda>u. User_Id u \<noteq> User_Id (currentUser s)) (Chat_Users c))
       (chats s)"

definition contentsSorted :: "store \<Rightarrow> bool" where
  "contentsSorted s = list_all (\<lambda>(k, c). sorted (map Message_At (Chat_Content c))) (chats s)"

section \<open>The wire codec (package conn)\<close>

text \<open>
  On the wire side a \<open>time.Time\<close> is taken as the Go value it is: the instant it denotes
  and the monotonic clock reading it carries, if any. A time from \<open>time.Now()\<close> carries a
  reading; \<open>t.UTC()\<close> and every unmarshaler give a time without one. Two Go values that
  differ in the reading are different values, although they denote the same instant.
  (Locations are not modelled.)
\<close>

record Time =
  Time_instant :: time
  Time_monotonic :: "int option"

record NetworkMsg =
  NetworkMsg_UserId :: string
  NetworkMsg_ChatId :: string
  NetworkMsg_Message :: string
  NetworkMsg_At :: Time

text \<open>
  The errors a frame read can return: the two of package \<open>io\<close>, the two that
  \<open>ReadNetworkMessage\<close> formats itself, and any other error of the gob decoder.
\<close>

datatype num_error = ErrSyntax | ErrRange

datatype conn_error =
  EOF
  | ErrUnexpectedEOF
  | WrongNumberOfBytes nat
  | SizeUnparseable string num_error
  | GobError string

text \<open>A Go call either returns or panics; a panic carries the runtime's message.\<close>

datatype 'a outcome = Returned 'a | Panicked string

type_synonym decoder = "string \<Rightarrow> conn_error + NetworkMsg"

subsection \<open>Library functions used by the codec\<close>

text \<open>
  \<open>io.ReadFull(c, buf)\<close> on a reader that delivers the bytes \<open>c\<close> and then end of file,
  with \<open>len(buf) = n\<close>: the bytes read, their number, the error, and the rest of the
  stream. No byte at all is \<open>EOF\<close>, too few bytes \<open>ErrUnexpectedEOF\<close>; a buffer of length
  0 reads nothing and succeeds.
\<close>

definition ReadFull :: "string \<Rightarrow> nat \<Rightarrow> (string \<times> nat \<times> conn_error option) \<times> string" where
  "ReadFull c n =
     (if n \<le> length c then ((take n c, n, None), drop n c)
      else if c = [] then (([], 0, Some EOF), [])
      else ((c, length c, Some ErrUnexpectedEOF), []))"

text \<open>
  \<open>strconv.Atoi\<close> (64-bit \<open>int\<close>): an optional sign, then at least one character, all of
  them digits. The digit test is the source's byte arithmetic: \<open>ch -= '0'\<close> wraps
  around, and \<open>ch > 9\<close> rejects.
\<close>

definition byteSub :: "nat \<Rightarrow> nat \<Rightarrow> nat" where
  "byteSub a b = (a + 256 - b) mod 256"

fun atoiDigits :: "string \<Rightarrow> nat \<Rightarrow> nat option" where
  "atoiDigits [] n = Some n"
| "atoiDigits (ch # s) n =
     (let d = byteSub (of_char ch) 48
      in if d > 9 then None else atoiDigits s (n * 10 + d))"

definition Atoi :: "string \<Rightarrow> num_error + int" where
  "Atoi s0 =
     (case s0 of
        [] \<Rightarrow> Inl ErrSyntax
      | c0 # rest \<Rightarrow>
          (let s = (if c0 = CHR ''-'' \<or> c0 = CHR ''+'' then rest else s0)
           in if s = [] then Inl ErrSyntax
              else (case atoiDigits s 0 of
                      None \<Rightarrow> Inl ErrSyntax
                    | Some n \<Rightarrow>
                        (let v = (if c0 = CHR ''-'' then - int n else int n)
                         in if v < - (2 ^ 63) \<or> 2 ^ 63 - 1 < v then Inl ErrRange
                            else Inr v))))"

text \<open>
  What \<open>Atoi\<close> accepts, in words: an optional sign and then one or more characters
  \<open>0\<close> to \<open>9\<close>.
\<close>

definition isDigit :: "char \<Rightarrow> bool" where
  "isDigit ch = (CHR ''0'' \<le> ch \<and> ch \<le> CHR ''9'')"

definition decimalSyntax :: "string \<Rightarrow> bool" where
  "decimalSyntax s =
     (case s of
        [] \<Rightarrow> False
      | c0 # rest \<Rightarrow>
          if c0 = CHR ''-'' \<or> c0 = CHR ''+'' then rest \<noteq> [] \<and> list_all isDigit rest
          else list_all isDigit s)"





subsection \<open>Writing and reading a frame\<close>

text \<open>
  The payload \<open>writeToConn\<close> builds from a message. The store's model of a message keeps
  the instant of \<open>m.At\<close>; \<open>reading\<close> is the monotonic clock reading that \<open>m.At\<close> carries as a
  Go value, if any.
\<close>

definition toNetworkMsg :: "int option \<Rightarrow> Message \<Rightarrow> NetworkMsg" where
  "toNetworkMsg reading m =
     \<lparr>NetworkMsg_UserId = Message_UserId m,
      NetworkMsg_ChatId = Message_ChatId m,
      NetworkMsg_Message = Message_Text m,
      NetworkMsg_At = \<lparr>Time_instant = Message_At m, Time_monotonic = reading\<rparr>\<rparr>"


text \<open>
  \<open>ReadNetworkMessage\<close> on a reader that delivers the bytes \<open>c\<close>: the outcome and the rest
  of the stream. \<open>make([]byte, size)\<close> panics for a negative \<open>size\<close>.
\<close>

definition ReadNetworkMessage ::
  "decoder \<Rightarrow> string \<Rightarrow> (conn_error + NetworkMsg) outcome \<times> string"
where
  "ReadNetworkMessage decode c =
     (case ReadFull c 5 of
        ((sizeRead, n, Some err), c1) \<Rightarrow> (Returned (Inl err), c1)
      | ((sizeRead, n, None), c1) \<Rightarrow>
          if n \<noteq> 5 then (Returned (Inl (WrongNumberOfBytes n)), c1)
          else (case Atoi sizeRead of
                  Inl err \<Rightarrow> (Returned (Inl (SizeUnparseable sizeRead err)), c1)
                | Inr size' \<Rightarrow>
                    if size' < 0 then (Panicked ''runtime error: makeslice: len out of range'', c1)
                    else (case ReadFull c1 (nat size') of
                            ((msg, n', Some err), c2) \<Rightarrow> (Returned (Inl err), c2)
                          | ((msg, n', None), c2) \<Rightarrow>
                              (case decode msg of
                                 Inl err \<Rightarrow> (Returned (Inl err), c2)
                               | Inr m \<Rightarrow> (Returned (Inr m), c2)))))"

subsection \<open>The payload codec\<close>




definition untagField :: "string \<Rightarrow> (string \<times> string) option" where
  "untagField bs =
     (case dropWhile isDigit bs of
        [] \<Rightarrow> None
      | c0 # rest \<Rightarrow>
          if c0 \<noteq> CHR '':'' \<or> takeWhile isDigit bs = [] then None
          else (case atoiDigits (takeWhile isDigit bs) 0 of
                  None \<Rightarrow> None
                | Some n \<Rightarrow>
                    if length rest < n then None else Some (take n rest, drop n rest)))"

definition untagTime :: "string \<Rightarrow> time option" where
  "untagTime bs =
     (case bs of
        [] \<Rightarrow> None
      | c0 # ds \<Rightarrow>
          if (c0 \<noteq> CHR ''-'' \<and> c0 \<noteq> CHR ''+'') \<or> ds = [] then None
          else (case atoiDigits ds 0 of
                  None \<Rightarrow> None
                | Some n \<Rightarrow> Some (if c0 = CHR ''-'' then - int n else int n)))"

definition tagDecode :: decoder where
  "tagDecode bs =
     (if bs = [] then Inl EOF
      else case untagField bs of
        None \<Rightarrow> Inl ErrUnexpectedEOF
      | Some (u, r1) \<Rightarrow>
          (case untagField r1 of
             None \<Rightarrow> Inl ErrUnexpectedEOF
           | Some (c, r2) \<Rightarrow>
               (case untagField r2 of
                  None \<Rightarrow> Inl ErrUnexpectedEOF
                | Some (t, r3) \<Rightarrow>
                    (case untagTime r3 of
                       None \<Rightarrow> Inl (GobError ''bad time'')
                     | Some a \<Rightarrow>
                         Inr \<lparr>NetworkMsg_UserId = u, NetworkMsg_ChatId = c,
                              NetworkMsg_Message = t,
                              NetworkMsg_At = \<lparr>Time_instant = a, Time_monotonic = None\<rparr>\<rparr>))))"


section \<open>The directory service\<close>

record Client =
  Client_ID :: string
  Client_Name :: string
  Client_IP :: string
  Client_Port :: int

text \<open>
  \<open>Client.Validate\<close>: the error message, \<open>None\<close> for \<open>nil\<close>. \<open>strings.TrimSpace\<close> is a
  library function and a parameter.
\<close>

definition Validate :: "(string \<Rightarrow> string) \<Rightarrow> Client \<Rightarrow> string option" where
  "Validate TrimSpace c =
     (if length (TrimSpace (Client_ID c)) = 0 then Some ''client id empty''
      else if length (TrimSpace (Client_Name c)) = 0 then Some ''client name empty''
      else if length (TrimSpace (Client_IP c)) = 0 then Some ''client ip empty''
      else if Client_Port c < 1000 then Some ''invalid client port''
      else None)"

text \<open>
  \<open>strings.TrimSpace\<close> on strings of ASCII bytes, for the examples: the six ASCII space
  characters are cut from both ends.
\<close>

definition asciiSpace :: "char \<Rightarrow> bool" where
  "asciiSpace ch = (ch \<in> set [CHR 0x09, CHR 0x0A, CHR 0x0B, CHR 0x0C, CHR 0x0D, CHR '' ''])"

definition TrimSpaceASCII :: "string \<Rightarrow> string" where
  "TrimSpaceASCII s = rev (dropWhile asciiSpace (rev (dropWhile asciiSpace s)))"

text \<open>
  The registry behind \<open>RegisterClient\<close> is the cache of an external module; it is
  modelled as the map from client id to record that \<open>AddOrReplace\<close> updates, without
  the expiry. \<open>RegisterClient\<close> always returns \<open>nil\<close>.
\<close>

type_synonym registry = "string \<rightharpoonup> Client"

definition RegisterClient :: "registry \<Rightarrow> Client \<Rightarrow> string option \<times> registry" where
  "RegisterClient reg client = (None, reg(Client_ID client \<mapsto> client))"

text \<open>
  The handler of \<open>PUT /ping\<close>. The request body is absent (\<open>r.Body == nil\<close>), fails to be
  read, or is read as bytes; \<open>json.Unmarshal\<close> is a parameter. A handler that returns
  without writing answers 200 with an empty body.
\<close>

datatype request_body = NoBody | Unreadable | Body string

record response =
  response_status :: nat
  response_body :: string

definition validationBody :: "string \<Rightarrow> string" where
  \<open>validationBody reason = ''{"message": "'' @ reason @ ''"}''\<close>

definition pingHandler ::
  "(string \<Rightarrow> string) \<Rightarrow> (string \<Rightarrow> string + Client) \<Rightarrow> registry \<Rightarrow> request_body
     \<Rightarrow> response \<times> registry"
where
  "pingHandler TrimSpace Unmarshal reg body =
     (case body of
        NoBody \<Rightarrow> (\<lparr>response_status = 400, response_body = ''no body''\<rparr>, reg)
      | Unreadable \<Rightarrow> (\<lparr>response_status = 400, response_body = ''malformed body''\<rparr>, reg)
      | Body all \<Rightarrow>
          (case Unmarshal all of
             Inl err \<Rightarrow> (\<lparr>response_status = 400, response_body = ''malformed body''\<rparr>, reg)
           | Inr c \<Rightarrow>
               (case Validate TrimSpace c of
                  Some err \<Rightarrow>
                    (\<lparr>response_status = 400, response_body = validationBody err\<rparr>, reg)
                | None \<Rightarrow>
                    (case RegisterClient reg c of
                       (Some err, reg') \<Rightarrow>
                         (\<lparr>response_status = 500, response_body = ''error''\<rparr>, reg')
                     | (None, reg') \<Rightarrow>
                         (\<lparr>response_status = 200, response_body = []\<rparr>, reg')))))"

section \<open>The users of the specification's scenarios\<close>

definition userA :: User where
  "userA = \<lparr>User_Id = ''aaa'', User_Name = ''A'', User_Address = ''10.0.0.1'', User_Port = 1000\<rparr>"

definition userB :: User where
  "userB = \<lparr>User_Id = ''bbb'', User_Name = ''B'', User_Address = ''10.0.0.2'', User_Port = 1000\<rparr>"

text \<open>The message of scenario E2, with a user name of the sender's choosing.\<close>

definition helloMsg :: Message where
  "helloMsg =
     \<lparr>Message_ChatId = ''YWFhX2JiYg=='', Message_UserId = ''aaa'',
      Message_UserName = ''Mallory'', Message_Text = ''hello'', Message_At = 1000,
      Message_ErrorMessage = False\<rparr>"

text \<open>A third user, and stores of user \<open>B\<close> along the scenarios E2, E3 and E6.\<close>

definition userC :: User where
  "userC = \<lparr>User_Id = ''ccc'', User_Name = ''C'', User_Address = ''10.0.0.3'', User_Port = 1000\<rparr>"

definition storeB0 :: store where
  "storeB0 = snd (RefreshUsers (NewStore userB) [userA, userB])"

definition storeB1 :: store where
  "storeB1 = snd (AddChatLine insertionSort storeB0 helloMsg)"



text \<open>The client record of the specification's port example, by its port.\<close>

definition clientA :: "int \<Rightarrow> Client" where
  "clientA port =
     \<lparr>Client_ID = ''aaa'', Client_Name = ''A'', Client_IP = ''10.0.0.1'', Client_Port = port\<rparr>"

section \<open>Chat identity\<close>

lemma userIdsLoop_eq:
  "userIdsLoop cur users acc =
     (if cur \<in> User_Id ` set users then Inl WrongNewChatUsersErr
      else Inr (acc @ map User_Id users))"
  by (induction users arbitrary: acc) auto

lemma buildChat_eq:
  "buildChat s users =
     (if User_Id (currentUser s) \<in> User_Id ` set users then Inl WrongNewChatUsersErr
      else Inr \<lparr>Chat_Id = EncodeToString
                   (Join (sort (User_Id (currentUser s) # map User_Id users)) ''_''),
                Chat_OwnerUser = currentUser s,
                Chat_Users = users,
                Chat_Content = [],
                Chat_Offline = False\<rparr>)"
  by (simp add: buildChat_def userIdsLoop_eq)

lemma sort_cong_mset: "mset xs = mset ys \<Longrightarrow> sort xs = sort (ys :: string list)"
  by (rule properties_for_sort) simp_all

lemma EncodeToString_aaa_bbb: "EncodeToString ''aaa_bbb'' = ''YWFhX2JiYg==''"
  by (simp add: b64_def encodeStd_def)

lemma sort_cong_set:
  "distinct xs \<Longrightarrow> distinct ys \<Longrightarrow> set xs = set ys \<Longrightarrow> sort xs = sort (ys :: string list)"
  by (rule sort_cong_mset) (simp add: set_eq_iff_mset_eq_distinct)

text \<open>
  Claim C1. The id of the chat that \<open>buildChat\<close> builds is the base64 encoding of the
  sorted ids of the owner and the supplied users, joined with \<open>_\<close>. Two successful
  builds over the same set of participant ids (no id supplied twice) give the same chat
  id; the chat that \<open>a\<close> builds with \<open>b\<close> has the id of the chat that \<open>b\<close> builds with \<open>a\<close>;
  and for the ids \<open>aaa\<close> and \<open>bbb\<close> the id is \<open>YWFhX2JiYg==\<close>.
\<close>

theorem chat_id_deterministic:
  "buildChat s users =
     (if User_Id (currentUser s) \<in> User_Id ` set users then Inl WrongNewChatUsersErr
      else Inr \<lparr>Chat_Id = EncodeToString
                   (Join (sort (User_Id (currentUser s) # map User_Id users)) ''_''),
                Chat_OwnerUser = currentUser s,
                Chat_Users = users,
                Chat_Content = [],
                Chat_Offline = False\<rparr>)
   \<and> (buildChat s users = Inr c \<and> buildChat s' users' = Inr c' \<and>
        distinct (map User_Id users) \<and> distinct (map User_Id users') \<and>
        insert (User_Id (currentUser s)) (User_Id ` set users) =
          insert (User_Id (currentUser s')) (User_Id ` set users')
        \<longrightarrow> Chat_Id c = Chat_Id c')
   \<and> map_sum id Chat_Id (buildChat \<lparr>currentUser = a, chats = chs\<rparr> [b]) =
       map_sum id Chat_Id (buildChat \<lparr>currentUser = b, chats = chs'\<rparr> [a])
   \<and> (User_Id a = ''aaa'' \<and> User_Id b = ''bbb'' \<longrightarrow>
        map_sum id Chat_Id (buildChat \<lparr>currentUser = a, chats = chs\<rparr> [b]) = Inr ''YWFhX2JiYg==''
        \<and> map_sum id Chat_Id (buildChat \<lparr>currentUser = b, chats = chs'\<rparr> [a]) = Inr ''YWFhX2JiYg=='')"
proof (intro conjI impI)
  show "buildChat s users =
     (if User_Id (currentUser s) \<in> User_Id ` set users then Inl WrongNewChatUsersErr
      else Inr \<lparr>Chat_Id = EncodeToString
                   (Join (sort (User_Id (currentUser s) # map User_Id users)) ''_''),
                Chat_OwnerUser = currentUser s,
                Chat_Users = users,
                Chat_Content = [],
                Chat_Offline = False\<rparr>)"
    by (rule buildChat_eq)
next
  assume h: "buildChat s users = Inr c \<and> buildChat s' users' = Inr c' \<and>
        distinct (map User_Id users) \<and> distinct (map User_Id users') \<and>
        insert (User_Id (currentUser s)) (User_Id ` set users) =
          insert (User_Id (currentUser s')) (User_Id ` set users')"
  let ?ids = "User_Id (currentUser s) # map User_Id users"
  let ?ids' = "User_Id (currentUser s') # map User_Id users'"
  from h have n: "User_Id (currentUser s) \<notin> User_Id ` set users"
    and n': "User_Id (currentUser s') \<notin> User_Id ` set users'"
    by (auto simp: buildChat_eq split: if_splits)
  from h n n' have "distinct ?ids" "distinct ?ids'" "set ?ids = set ?ids'"
    by auto
  then have "sort ?ids = sort ?ids'"
    by (rule sort_cong_set)
  with h n n' show "Chat_Id c = Chat_Id c'"
    by (auto simp: buildChat_eq)
next
  have "mset [User_Id a, User_Id b] = mset [User_Id b, User_Id a]"
    by simp
  then have "sort [User_Id a, User_Id b] = sort [User_Id b, User_Id a]"
    by (rule sort_cong_mset)
  then show "map_sum id Chat_Id (buildChat \<lparr>currentUser = a, chats = chs\<rparr> [b]) =
       map_sum id Chat_Id (buildChat \<lparr>currentUser = b, chats = chs'\<rparr> [a])"
    by (auto simp: buildChat_eq)
next
  assume h: "User_Id a = ''aaa'' \<and> User_Id b = ''bbb''"
  have s1: "sort [''aaa'', ''bbb''] = [''aaa'', ''bbb'']" by simp
  show "map_sum id Chat_Id (buildChat \<lparr>currentUser = a, chats = chs\<rparr> [b]) = Inr ''YWFhX2JiYg==''"
    using h by (simp add: buildChat_eq b64_def encodeStd_def)
next
  assume h: "User_Id a = ''aaa'' \<and> User_Id b = ''bbb''"
  show "map_sum id Chat_Id (buildChat \<lparr>currentUser = b, chats = chs'\<rparr> [a]) = Inr ''YWFhX2JiYg==''"
    using h by (simp add: buildChat_eq b64_def encodeStd_def)
qed

theorem chat_id_deterministic_witness:
  "buildChat (NewStore userA) [userB] =
     Inr \<lparr>Chat_Id = ''YWFhX2JiYg=='', Chat_OwnerUser = userA, Chat_Users = [userB],
          Chat_Content = [], Chat_Offline = False\<rparr>
   \<and> buildChat (NewStore userB) [userA] =
     Inr \<lparr>Chat_Id = ''YWFhX2JiYg=='', Chat_OwnerUser = userB, Chat_Users = [userA],
          Chat_Content = [], Chat_Offline = False\<rparr>
   \<and> distinct (map User_Id [userB]) \<and> distinct (map User_Id [userA])
   \<and> insert (User_Id (currentUser (NewStore userA))) (User_Id ` set [userB]) =
       insert (User_Id (currentUser (NewStore userB))) (User_Id ` set [userA])
   \<and> User_Id userA = ''aaa'' \<and> User_Id userB = ''bbb''"
  using chat_id_deterministic [of "NewStore userA" "[userB]"
      "\<lparr>Chat_Id = ''YWFhX2JiYg=='', Chat_OwnerUser = userA, Chat_Users = [userB],
          Chat_Content = [], Chat_Offline = False\<rparr>"
      "NewStore userB" "[userA]"
      "\<lparr>Chat_Id = ''YWFhX2JiYg=='', Chat_OwnerUser = userB, Chat_Users = [userA],
          Chat_Content = [], Chat_Offline = False\<rparr>"
      userA "[]" userB "[]"]
  by (simp add: NewStore_def userA_def userB_def buildChat_eq b64_def encodeStd_def insert_commute)

section \<open>Frames on the wire\<close>

lemma isDigit_code: "isDigit ch \<longleftrightarrow> 48 \<le> (of_char ch :: nat) \<and> (of_char ch :: nat) \<le> 57"
  by (simp add: isDigit_def less_eq_char_def)

lemma byteSub_48:
  assumes "n < 256"
  shows "byteSub n 48 = (if 48 \<le> n then n - 48 else n + 208)"
proof (cases "48 \<le> n")
  case True
  then obtain k where k: "n = 48 + k" using le_iff_add by blast
  with assms have "k < 256" by simp
  have "(n + 256 - 48) mod 256 = (k + 256) mod 256" using k by simp
  also have "\<dots> = k" using \<open>k < 256\<close> by simp
  finally show ?thesis using k by (simp add: byteSub_def)
next
  case False
  then show ?thesis using assms by (simp add: byteSub_def)
qed

lemma digit_byte: "9 < byteSub (of_char ch) 48 \<longleftrightarrow> \<not> isDigit ch"
proof -
  have "(of_char ch :: nat) < 256" by (rule nat_of_char_less_256)
  then have "byteSub (of_char ch) 48 =
      (if 48 \<le> (of_char ch :: nat) then of_char ch - 48 else of_char ch + 208)"
    by (rule byteSub_48)
  then show ?thesis
    unfolding isDigit_code by (cases "48 \<le> (of_char ch :: nat)") auto
qed

lemma atoiDigits_None: "atoiDigits s n = None \<longleftrightarrow> \<not> list_all isDigit s"
  by (induction s arbitrary: n) (simp_all add: Let_def digit_byte)

lemma atoiDigits_bound: "atoiDigits s n = Some v \<Longrightarrow> v < (n + 1) * 10 ^ length s"
proof (induction s arbitrary: n)
  case Nil
  then show ?case by simp
next
  case (Cons ch s)
  let ?d = "byteSub (of_char ch) 48"
  from Cons.prems have d: "?d \<le> 9" and r: "atoiDigits s (n * 10 + ?d) = Some v"
    by (auto simp: Let_def split: if_splits)
  from Cons.IH [OF r] have "v < (n * 10 + ?d + 1) * 10 ^ length s" .
  also have "\<dots> \<le> ((n + 1) * 10) * 10 ^ length s"
    using d by (intro mult_right_mono) auto
  finally show ?case by (simp add: algebra_simps)
qed

lemma atoiDigits_small:
  assumes "atoiDigits s 0 = Some v" and "length s < 19"
  shows "int v < 2 ^ 63"
proof -
  from atoiDigits_bound [OF assms(1)] have "v < 10 ^ length s" by simp
  also have "(10::nat) ^ length s \<le> 10 ^ 18"
    using assms(2) by (intro power_increasing) auto
  finally have "v < 10 ^ 18" .
  then have "int v < int (10 ^ 18)" by (simp only: of_nat_less_iff)
  then show ?thesis by simp
qed

lemma Atoi_syntax:
  assumes "length s < 19"
  shows "(Atoi s = Inl ErrSyntax \<longleftrightarrow> \<not> decimalSyntax s) \<and> Atoi s \<noteq> Inl ErrRange"
proof (cases s)
  case Nil
  then show ?thesis by (simp add: Atoi_def decimalSyntax_def)
next
  case (Cons c0 rest)
  let ?t = "if c0 = CHR ''-'' \<or> c0 = CHR ''+'' then rest else s"
  have len: "length ?t < 19" using assms Cons by auto
  show ?thesis
  proof (cases "atoiDigits ?t 0")
    case None
    then have "\<not> list_all isDigit ?t" by (simp add: atoiDigits_None)
    with None Cons show ?thesis
      by (auto simp: Atoi_def decimalSyntax_def Let_def)
  next
    case (Some v)
    then have d: "list_all isDigit ?t"
      using atoiDigits_None [of ?t 0] by auto
    from atoiDigits_small [OF Some len] have "int v < 2 ^ 63" .
    with Some d Cons show ?thesis
      by (auto simp: Atoi_def decimalSyntax_def Let_def)
  qed
qed
















lemma ReadFull_enough:
  "n \<le> length c \<Longrightarrow> ReadFull c n = ((take n c, n, None), drop n c)"
  by (simp add: ReadFull_def)

lemma ReadFull_short:
  "length c < n \<Longrightarrow>
   ReadFull c n = (if c = [] then (([], 0, Some EOF), []) else ((c, length c, Some ErrUnexpectedEOF), []))"
  by (simp add: ReadFull_def)

lemma ReadNetworkMessage_short_header:
  "length c < 5 \<Longrightarrow>
   ReadNetworkMessage decode c =
     (if c = [] then (Returned (Inl EOF), []) else (Returned (Inl ErrUnexpectedEOF), []))"
  by (simp add: ReadNetworkMessage_def ReadFull_short)

lemma ReadNetworkMessage_bad_size:
  "5 \<le> length c \<Longrightarrow> Atoi (take 5 c) = Inl err \<Longrightarrow>
   ReadNetworkMessage decode c = (Returned (Inl (SizeUnparseable (take 5 c) err)), drop 5 c)"
  by (simp add: ReadNetworkMessage_def ReadFull_enough)

lemma ReadNetworkMessage_payload:
  assumes "5 \<le> length c" and "Atoi (take 5 c) = Inr n" and "0 \<le> n"
  shows "ReadNetworkMessage decode c =
     (if 0 < n \<and> length c = 5 then (Returned (Inl EOF), [])
      else if length c < 5 + nat n then (Returned (Inl ErrUnexpectedEOF), [])
      else (case decode (take (nat n) (drop 5 c)) of
              Inl err \<Rightarrow> (Returned (Inl err), drop (5 + nat n) c)
            | Inr m \<Rightarrow> (Returned (Inr m), drop (5 + nat n) c)))"
proof (cases "length c < 5 + nat n")
  case True
  then have "length (drop 5 c) < nat n" using assms(1) by simp
  from ReadFull_short [OF this] True assms show ?thesis
    by (auto simp: ReadNetworkMessage_def ReadFull_enough)
next
  case False
  then have "nat n \<le> length (drop 5 c)" by simp
  from ReadFull_enough [OF this] False assms show ?thesis
    by (auto simp: ReadNetworkMessage_def ReadFull_enough add.commute split: sum.splits)
qed

text \<open>
  Claim C2, as amended. On a stream whose size header does not parse to a negative
  number, \<open>ReadNetworkMessage\<close> fails with \<open>EOF\<close> on an empty stream and with
  \<open>ErrUnexpectedEOF\<close> on fewer than 5 bytes; fails with the size-unparseable error when
  \<open>Atoi\<close> rejects the 5 bytes, which it does exactly when they are not an optional sign
  and digits; then, for a size \<open>n\<close>, fails with \<open>EOF\<close> when \<open>n > 0\<close> and the stream ends right
  after the header, with \<open>ErrUnexpectedEOF\<close> when some but fewer than \<open>n\<close> bytes follow;
  and otherwise returns what the decoder returns on exactly the next \<open>n\<close> bytes, leaving
  the rest of the stream unread.
\<close>

theorem read_discipline:
  assumes "\<And>n. 5 \<le> length c \<Longrightarrow> Atoi (take 5 c) = Inr n \<Longrightarrow> 0 \<le> n"
  shows "ReadNetworkMessage decode c =
     (if c = [] then (Returned (Inl EOF), [])
      else if length c < 5 then (Returned (Inl ErrUnexpectedEOF), [])
      else (case Atoi (take 5 c) of
              Inl err \<Rightarrow> (Returned (Inl (SizeUnparseable (take 5 c) err)), drop 5 c)
            | Inr n \<Rightarrow>
                if 0 < n \<and> length c = 5 then (Returned (Inl EOF), [])
                else if length c < 5 + nat n then (Returned (Inl ErrUnexpectedEOF), [])
                else (case decode (take (nat n) (drop 5 c)) of
                        Inl err \<Rightarrow> (Returned (Inl err), drop (5 + nat n) c)
                      | Inr m \<Rightarrow> (Returned (Inr m), drop (5 + nat n) c))))
   \<and> ((\<exists>err. Atoi (take 5 c) = Inl err) \<longleftrightarrow> \<not> decimalSyntax (take 5 c))"
proof
  show "ReadNetworkMessage decode c =
     (if c = [] then (Returned (Inl EOF), [])
      else if length c < 5 then (Returned (Inl ErrUnexpectedEOF), [])
      else (case Atoi (take 5 c) of
              Inl err \<Rightarrow> (Returned (Inl (SizeUnparseable (take 5 c) err)), drop 5 c)
            | Inr n \<Rightarrow>
                if 0 < n \<and> length c = 5 then (Returned (Inl EOF), [])
                else if length c < 5 + nat n then (Returned (Inl ErrUnexpectedEOF), [])
                else (case decode (take (nat n) (drop 5 c)) of
                        Inl err \<Rightarrow> (Returned (Inl err), drop (5 + nat n) c)
                      | Inr m \<Rightarrow> (Returned (Inr m), drop (5 + nat n) c))))"
  proof (cases "length c < 5")
    case True
    then show ?thesis by (simp add: ReadNetworkMessage_short_header)
  next
    case False
    then have l: "5 \<le> length c" by simp
    then have ne: "c \<noteq> []" by auto
    show ?thesis
    proof (cases "Atoi (take 5 c)")
      case (Inl err)
      with l ne False show ?thesis by (simp add: ReadNetworkMessage_bad_size)
    next
      case (Inr n)
      with assms l have "0 \<le> n" by simp
      from ReadNetworkMessage_payload [OF l Inr this] Inr ne False show ?thesis by simp
    qed
  qed
next
  have "length (take 5 c) < 19" by simp
  from Atoi_syntax [OF this]
  show "(\<exists>err. Atoi (take 5 c) = Inl err) \<longleftrightarrow> \<not> decimalSyntax (take 5 c)"
    by (metis num_error.exhaust)
qed

theorem read_discipline_witness:
  "ReadNetworkMessage tagDecode [] = (Returned (Inl EOF), [])
   \<and> ReadNetworkMessage tagDecode [CHR 0x01, CHR 0x02, CHR 0x03] = (Returned (Inl ErrUnexpectedEOF), [])
   \<and> ReadNetworkMessage tagDecode ''definitely not a number'' =
       (Returned (Inl (SizeUnparseable ''defin'' ErrSyntax)), ''itely not a number'')
   \<and> \<not> decimalSyntax ''defin''
   \<and> Atoi ''00009'' = Inr 9
   \<and> ReadNetworkMessage tagDecode ''00009payload'' = (Returned (Inl ErrUnexpectedEOF), [])
   \<and> ReadNetworkMessage tagDecode ''00009'' = (Returned (Inl EOF), [])
   \<and> Atoi ''00032'' = Inr 32
   \<and> ReadNetworkMessage tagDecode ''000323:aaa12:YWFhX2JiYg==5:hello+1000XYZ'' =
       (Returned (Inr (toNetworkMsg None helloMsg)), ''XYZ'')"
proof -
  have a9: "Atoi ''00009'' = Inr 9" and a32: "Atoi ''00032'' = Inr 32"
    and ad: "Atoi ''defin'' = Inl ErrSyntax"
    by (simp_all add: Atoi_def byteSub_def Let_def)
  have d: "tagDecode ''3:aaa12:YWFhX2JiYg==5:hello+1000'' = Inr (toNetworkMsg None helloMsg)"
    by (simp add: tagDecode_def untagField_def untagTime_def isDigit_code byteSub_def Let_def
        toNetworkMsg_def helloMsg_def)
  have "ReadNetworkMessage tagDecode [] = (Returned (Inl EOF), [])"
    using read_discipline [of "[]" tagDecode] by simp
  moreover have "ReadNetworkMessage tagDecode [CHR 0x01, CHR 0x02, CHR 0x03] =
      (Returned (Inl ErrUnexpectedEOF), [])"
    using read_discipline [of "[CHR 0x01, CHR 0x02, CHR 0x03]" tagDecode] by simp
  moreover have "ReadNetworkMessage tagDecode ''definitely not a number'' =
       (Returned (Inl (SizeUnparseable ''defin'' ErrSyntax)), ''itely not a number'')
     \<and> \<not> decimalSyntax ''defin''"
    using read_discipline [of "''definitely not a number''" tagDecode] by (simp add: ad)
  moreover have "ReadNetworkMessage tagDecode ''00009payload'' = (Returned (Inl ErrUnexpectedEOF), [])"
    using read_discipline [of "''00009payload''" tagDecode] by (simp add: a9)
  moreover have "ReadNetworkMessage tagDecode ''00009'' = (Returned (Inl EOF), [])"
    using read_discipline [of "''00009''" tagDecode] by (simp add: a9)
  moreover have "ReadNetworkMessage tagDecode ''000323:aaa12:YWFhX2JiYg==5:hello+1000XYZ'' =
       (Returned (Inr (toNetworkMsg None helloMsg)), ''XYZ'')"
    using read_discipline [of "''000323:aaa12:YWFhX2JiYg==5:hello+1000XYZ''" tagDecode]
    by (simp add: a32 d)
  ultimately show ?thesis using a9 a32 by simp
qed

text \<open>
  The claim as stated fails where the stream ends right after a header that announces a
  payload: the short read of the payload is reported as \<open>EOF\<close>, not as
  \<open>ErrUnexpectedEOF\<close>.
\<close>

theorem read_short_payload_counterexample:
  "Atoi (take 5 ''00009'') = Inr 9 \<and> length (drop 5 ''00009'') < 9
   \<and> ReadNetworkMessage tagDecode ''00009'' = (Returned (Inl EOF), [])
   \<and> ReadNetworkMessage tagDecode ''00009'' \<noteq> (Returned (Inl ErrUnexpectedEOF), [])"
  by (simp add: ReadNetworkMessage_def ReadFull_def Atoi_def byteSub_def Let_def)

text \<open>
  Claim C10. A stream that starts with the header \<open>-0001\<close> makes \<open>ReadNetworkMessage\<close>
  panic in \<open>make([]byte, size)\<close>: it returns neither a message nor an error.
\<close>

theorem negative_size_panics:
  "ReadNetworkMessage decode (''-0001'' @ rest) =
     (Panicked ''runtime error: makeslice: len out of range'', rest)"
  by (simp add: ReadNetworkMessage_def ReadFull_def Atoi_def byteSub_def Let_def)

subsection \<open>The payload codec returns what it was given, up to the clock reading\<close>
















section \<open>Admission to the directory\<close>

lemma Validate_None:
  "Validate TrimSpace c = None \<longleftrightarrow>
     TrimSpace (Client_ID c) \<noteq> [] \<and> TrimSpace (Client_Name c) \<noteq> [] \<and>
     TrimSpace (Client_IP c) \<noteq> [] \<and> 1000 \<le> Client_Port c"
  by (simp add: Validate_def)

lemma Validate_port:
  "TrimSpace (Client_ID c) \<noteq> [] \<Longrightarrow> TrimSpace (Client_Name c) \<noteq> [] \<Longrightarrow>
   TrimSpace (Client_IP c) \<noteq> [] \<Longrightarrow> Client_Port c < 1000 \<Longrightarrow>
   Validate TrimSpace c = Some ''invalid client port''"
  by (simp add: Validate_def)

text \<open>
  Claim C8. For a client record unmarshalled from the body of \<open>PUT /ping\<close>, validation
  passes exactly when id, name and address are non-empty after trimming and the port is
  at least 1000. A record that fails gets status 400 with the body
  \<open>{"message": "<reason>"}\<close> and the registry is unchanged; with the other three
  fields in order, a port below 1000, such as 999, gives the reason
  \<open>invalid client port\<close>. A record that passes is put into the registry under its id.
\<close>

theorem ping_admission:
  assumes "Unmarshal body = Inr c"
  shows "(Validate TrimSpace c = None \<longleftrightarrow>
            TrimSpace (Client_ID c) \<noteq> [] \<and> TrimSpace (Client_Name c) \<noteq> [] \<and>
            TrimSpace (Client_IP c) \<noteq> [] \<and> 1000 \<le> Client_Port c)
   \<and> (\<forall>reason. Validate TrimSpace c = Some reason \<longrightarrow>
          pingHandler TrimSpace Unmarshal reg (Body body) =
            (\<lparr>response_status = 400, response_body = validationBody reason\<rparr>, reg))
   \<and> (TrimSpace (Client_ID c) \<noteq> [] \<and> TrimSpace (Client_Name c) \<noteq> [] \<and>
        TrimSpace (Client_IP c) \<noteq> [] \<and> Client_Port c = 999 \<longrightarrow>
          pingHandler TrimSpace Unmarshal reg (Body body) =
            (\<lparr>response_status = 400,
              response_body = validationBody ''invalid client port''\<rparr>, reg))
   \<and> (Validate TrimSpace c = None \<longrightarrow>
          pingHandler TrimSpace Unmarshal reg (Body body) =
            (\<lparr>response_status = 200, response_body = []\<rparr>, reg(Client_ID c \<mapsto> c)))"
proof (intro conjI allI impI)
  show "Validate TrimSpace c = None \<longleftrightarrow>
            TrimSpace (Client_ID c) \<noteq> [] \<and> TrimSpace (Client_Name c) \<noteq> [] \<and>
            TrimSpace (Client_IP c) \<noteq> [] \<and> 1000 \<le> Client_Port c"
    by (rule Validate_None)
next
  fix reason
  assume "Validate TrimSpace c = Some reason"
  with assms show "pingHandler TrimSpace Unmarshal reg (Body body) =
            (\<lparr>response_status = 400, response_body = validationBody reason\<rparr>, reg)"
    by (simp add: pingHandler_def)
next
  assume "TrimSpace (Client_ID c) \<noteq> [] \<and> TrimSpace (Client_Name c) \<noteq> [] \<and>
        TrimSpace (Client_IP c) \<noteq> [] \<and> Client_Port c = 999"
  then have "Validate TrimSpace c = Some ''invalid client port''"
    by (simp add: Validate_port)
  with assms show "pingHandler TrimSpace Unmarshal reg (Body body) =
            (\<lparr>response_status = 400,
              response_body = validationBody ''invalid client port''\<rparr>, reg)"
    by (simp add: pingHandler_def)
next
  assume "Validate TrimSpace c = None"
  with assms show "pingHandler TrimSpace Unmarshal reg (Body body) =
            (\<lparr>response_status = 200, response_body = []\<rparr>, reg(Client_ID c \<mapsto> c))"
    by (simp add: pingHandler_def RegisterClient_def)
qed

theorem ping_admission_witness:
  \<open>pingHandler TrimSpaceASCII (\<lambda>b. Inr (clientA 999)) Map.empty (Body ''{}'') =
     (\<lparr>response_status = 400, response_body = ''{"message": "invalid client port"}''\<rparr>, Map.empty)
   \<and> Validate TrimSpaceASCII (clientA 999) = Some ''invalid client port''
   \<and> TrimSpaceASCII (Client_ID (clientA 999)) \<noteq> []
   \<and> TrimSpaceASCII (Client_Name (clientA 999)) \<noteq> []
   \<and> TrimSpaceASCII (Client_IP (clientA 999)) \<noteq> []
   \<and> Client_Port (clientA 999) = 999
   \<and> Validate TrimSpaceASCII (clientA 1000) = None
   \<and> pingHandler TrimSpaceASCII (\<lambda>b. Inr (clientA 1000)) Map.empty (Body ''{}'') =
     (\<lparr>response_status = 200, response_body = []\<rparr>, [''aaa'' \<mapsto> clientA 1000])
   \<and> Validate TrimSpaceASCII ((clientA 1000)\<lparr>Client_Name := ''  ''\<rparr>) = Some ''client name empty''
   \<and> pingHandler TrimSpaceASCII (\<lambda>b. Inr ((clientA 1000)\<lparr>Client_Name := ''  ''\<rparr>)) Map.empty (Body ''{}'') =
     (\<lparr>response_status = 400, response_body = ''{"message": "client name empty"}''\<rparr>, Map.empty)\<close>
proof -
  have t: "TrimSpaceASCII ''aaa'' = ''aaa''" "TrimSpaceASCII ''A'' = ''A''"
    "TrimSpaceASCII ''10.0.0.1'' = ''10.0.0.1''" "TrimSpaceASCII ''  '' = []"
    by (simp_all add: TrimSpaceASCII_def asciiSpace_def)
  have v1: "Validate TrimSpaceASCII (clientA 999) = Some ''invalid client port''"
    and v2: "Validate TrimSpaceASCII (clientA 1000) = None"
    and v3: "Validate TrimSpaceASCII ((clientA 1000)\<lparr>Client_Name := ''  ''\<rparr>) = Some ''client name empty''"
    by (simp_all add: Validate_def clientA_def t)
  note a = ping_admission [where TrimSpace = TrimSpaceASCII and reg = Map.empty
      and body = "''{}''"]
  from a [where Unmarshal = "\<lambda>b. Inr (clientA 999)" and c = "clientA 999"]
    a [where Unmarshal = "\<lambda>b. Inr (clientA 1000)" and c = "clientA 1000"]
    a [where Unmarshal = "\<lambda>b. Inr ((clientA 1000)\<lparr>Client_Name := ''  ''\<rparr>)"
      and c = "(clientA 1000)\<lparr>Client_Name := ''  ''\<rparr>"]
    v1 v2 v3
  show ?thesis
    by (simp add: clientA_def t validationBody_def)
qed

section \<open>The store\<close>

subsection \<open>Association lists\<close>

lemma list_all_update:
  "list_all P al \<Longrightarrow> P (k, v) \<Longrightarrow> list_all P (AList.update k v al)"
  by (induction al) auto

lemma list_all_delete: "list_all P al \<Longrightarrow> list_all P (AList.delete k al)"
  by (induction al) auto

lemma list_all_map_of:
  "list_all P al \<Longrightarrow> map_of al k = Some v \<Longrightarrow> P (k, v)"
  by (auto simp: list_all_iff dest: map_of_SomeD)

subsection \<open>Users of a chat\<close>

lemma findUser_find: "findUser us i = find (\<lambda>u. User_Id u = i) us"
  by (induction us) auto

lemma findUser_None: "findUser us i = None \<longleftrightarrow> i \<notin> User_Id ` set us"
  by (induction us) auto

lemma GetUser_None: "GetUser c i = None \<longleftrightarrow> i \<notin> participantIds c"
  using findUser_None [of "Chat_Users c" i]
  by (cases "findUser (Chat_Users c) i") (auto simp: GetUser_def participantIds_def)

lemma GetUser_Some:
  "GetUser c i = Some u \<Longrightarrow> User_Name u = rosterName c i \<and> User_Id u = i"
  by (auto simp: GetUser_def rosterName_def findUser_find split: option.splits if_splits
      dest: find_Some_iff [THEN iffD1])

subsection \<open>Storing a chat\<close>

lemma storeInv_map_of: "storeInv s \<Longrightarrow> map_of (chats s) k = Some c \<Longrightarrow> Chat_Id c = k"
  by (auto simp: storeInv_def dest: list_all_map_of)

lemma currentUser_storeChat [simp]: "currentUser (storeChat s chat) = currentUser s"
  by (simp add: storeChat_def Let_def)

lemma map_of_storeChat:
  "map_of (chats (storeChat s chat)) =
     (map_of (chats s))(Chat_Id chat \<mapsto>
        (case map_of (chats s) (Chat_Id chat) of
           Some c \<Rightarrow> chat\<lparr>Chat_Content := Chat_Content c\<rparr>
         | None \<Rightarrow> chat))"
  by (simp add: storeChat_def Let_def update_conv')

lemma storeInv_storeChat: "storeInv s \<Longrightarrow> storeInv (storeChat s chat)"
  by (auto simp: storeInv_def storeChat_def Let_def distinct_update
      intro!: list_all_update split: option.splits)

lemma contentOf_storeChat:
  "Chat_Content chat = [] \<or> map_of (chats s) (Chat_Id chat) \<noteq> None \<Longrightarrow>
   contentOf (storeChat s chat) k = contentOf s k"
  by (auto simp: contentOf_def map_of_storeChat split: option.splits)


subsection \<open>The two loops of RefreshUsers\<close>

lemma buildChat_single:
  "User_Id u \<noteq> User_Id (currentUser s) \<Longrightarrow>
   buildChat s [u] = Inr (builtChat (currentUser s) u [])"
  by (auto simp: buildChat_eq builtChat_def pairChatId_def)

lemma find_append_case:
  "find P (xs @ ys) = (case find P xs of Some x \<Rightarrow> Some x | None \<Rightarrow> find P ys)"
  by (induction xs) auto

lemma lastFor_Nil [simp]: "lastFor cu [] k = None"
  by (simp add: lastFor_def)

lemma lastFor_Cons:
  "lastFor cu (u # us) k =
     (case lastFor cu us k of
        Some u' \<Rightarrow> Some u'
      | None \<Rightarrow> if User_Id u \<noteq> User_Id cu \<and> pairChatId cu u = k then Some u else None)"
  by (simp add: lastFor_def find_append_case split: option.splits)

lemma lastFor_None:
  "lastFor cu us k = None \<longleftrightarrow>
     (\<forall>u \<in> set us. User_Id u = User_Id cu \<or> pairChatId cu u \<noteq> k)"
  by (auto simp: lastFor_def find_None_iff)

lemma lastFor_Some:
  "lastFor cu us k = Some u \<Longrightarrow>
     u \<in> set us \<and> User_Id u \<noteq> User_Id cu \<and> pairChatId cu u = k"
  by (induction us) (auto simp: lastFor_Cons split: option.splits if_splits)

lemma storeChat_built:
  "map_of (chats (storeChat s (builtChat cu u []))) =
     (map_of (chats s))(pairChatId cu u \<mapsto> builtChat cu u (contentOf s (pairChatId cu u)))"
  by (auto simp: map_of_storeChat builtChat_def contentOf_def split: option.splits)

lemma contentOf_storeChat_built:
  "contentOf (storeChat s (builtChat cu u [])) k = contentOf s k"
  by (rule contentOf_storeChat) (simp add: builtChat_def)

lemma refreshLoop_result:
  "\<exists>s' snapshot'.
     refreshLoop s snapshot us = (None, s', snapshot') \<and>
     currentUser s' = currentUser s \<and>
     (storeInv s \<longrightarrow> storeInv s') \<and>
     (\<forall>k. map_of (chats s') k =
        (case lastFor (currentUser s) us k of
           Some u \<Rightarrow> Some (builtChat (currentUser s) u (contentOf s k))
         | None \<Rightarrow> map_of (chats s) k)) \<and>
     (\<forall>k. map_of snapshot' k =
        (if lastFor (currentUser s) us k = None then map_of snapshot k else None)) \<and>
     (distinct (map fst snapshot) \<longrightarrow> distinct (map fst snapshot')) \<and>
     (\<forall>P. list_all P snapshot \<longrightarrow> list_all P snapshot')"
proof (induction us arbitrary: s snapshot)
  case Nil
  show ?case by simp
next
  case (Cons u us)
  show ?case
  proof (cases "User_Id u = User_Id (currentUser s)")
    case True
    from Cons.IH [of s snapshot] obtain s' snapshot' where
      r: "refreshLoop s snapshot us = (None, s', snapshot')"
      and cu: "currentUser s' = currentUser s"
      and inv: "storeInv s \<longrightarrow> storeInv s'"
      and m: "\<And>k. map_of (chats s') k =
        (case lastFor (currentUser s) us k of
           Some u' \<Rightarrow> Some (builtChat (currentUser s) u' (contentOf s k))
         | None \<Rightarrow> map_of (chats s) k)"
      and sn: "\<And>k. map_of snapshot' k =
        (if lastFor (currentUser s) us k = None then map_of snapshot k else None)"
      and di: "distinct (map fst snapshot) \<longrightarrow> distinct (map fst snapshot')"
      and al: "\<And>P. list_all P snapshot \<longrightarrow> list_all P snapshot'"
      by blast
    have l: "lastFor (currentUser s) (u # us) k = lastFor (currentUser s) us k" for k
      using True by (simp add: lastFor_Cons split: option.splits)
    have 1: "refreshLoop s snapshot (u # us) = (None, s', snapshot')"
      using True r by simp
    from 1 cu inv m sn di al show ?thesis
      unfolding l by blast
  next
    case False
    let ?cu = "currentUser s"
    let ?chat = "builtChat ?cu u []"
    let ?s1 = "storeChat s ?chat"
    let ?snap1 = "AList.delete (Chat_Id ?chat) snapshot"
    have id: "Chat_Id ?chat = pairChatId ?cu u" by (simp add: builtChat_def)
    from Cons.IH [of ?s1 ?snap1] obtain s' snapshot' where
      r: "refreshLoop ?s1 ?snap1 us = (None, s', snapshot')"
      and cu: "currentUser s' = currentUser ?s1"
      and inv: "storeInv ?s1 \<longrightarrow> storeInv s'"
      and m: "\<And>k. map_of (chats s') k =
        (case lastFor (currentUser ?s1) us k of
           Some u' \<Rightarrow> Some (builtChat (currentUser ?s1) u' (contentOf ?s1 k))
         | None \<Rightarrow> map_of (chats ?s1) k)"
      and sn: "\<And>k. map_of snapshot' k =
        (if lastFor (currentUser ?s1) us k = None then map_of ?snap1 k else None)"
      and di: "distinct (map fst ?snap1) \<longrightarrow> distinct (map fst snapshot')"
      and al: "\<And>P. list_all P ?snap1 \<longrightarrow> list_all P snapshot'"
      by blast
    have 1: "refreshLoop s snapshot (u # us) = (None, s', snapshot')"
      using False r by (simp add: buildChat_single)
    have 2: "currentUser s' = ?cu" using cu by simp
    have 3: "storeInv s \<longrightarrow> storeInv s'" using inv by (simp add: storeInv_storeChat)
    have 4: "map_of (chats s') k =
        (case lastFor ?cu (u # us) k of
           Some u' \<Rightarrow> Some (builtChat ?cu u' (contentOf s k))
         | None \<Rightarrow> map_of (chats s) k)" for k
      using False m [of k]
      by (auto simp: lastFor_Cons storeChat_built contentOf_storeChat_built split: option.splits)
    have 5: "map_of snapshot' k =
        (if lastFor ?cu (u # us) k = None then map_of snapshot k else None)" for k
      using False sn [of k]
      by (auto simp: lastFor_Cons id delete_conv' split: option.splits)
    have 6: "distinct (map fst snapshot) \<longrightarrow> distinct (map fst snapshot')"
      using di by (simp add: distinct_delete)
    have 7: "list_all P snapshot \<longrightarrow> list_all P snapshot'" for P
      using al [of P] by (simp add: list_all_delete)
    from 1 2 3 4 5 6 7 show ?thesis by blast
  qed
qed

lemma currentUser_offlineLoop [simp]: "currentUser (offlineLoop s cs) = currentUser s"
  by (induction s cs rule: offlineLoop.induct) simp_all

lemma storeInv_offlineLoop: "storeInv s \<Longrightarrow> storeInv (offlineLoop s cs)"
  by (induction s cs rule: offlineLoop.induct) (simp_all add: storeInv_storeChat)

lemma offlineLoop_result:
  assumes "distinct (map fst cs)" and "list_all (\<lambda>(k, c). Chat_Id c = k) cs"
  shows "map_of (chats (offlineLoop s cs)) k =
     (case map_of cs k of
        Some c \<Rightarrow>
          Some (c\<lparr>Chat_Offline := True,
                   Chat_Content := (case map_of (chats s) k of
                                      Some c0 \<Rightarrow> Chat_Content c0
                                    | None \<Rightarrow> Chat_Content c)\<rparr>)
      | None \<Rightarrow> map_of (chats s) k)"
  using assms
proof (induction s cs rule: offlineLoop.induct)
  case (1 s)
  show ?case by simp
next
  case (2 s k0 c0 cs)
  let ?s1 = "storeChat s (c0\<lparr>Chat_Offline := True\<rparr>)"
  from "2.prems" have id: "Chat_Id c0 = k0" and d: "distinct (map fst cs)"
    and a: "list_all (\<lambda>(k, c). Chat_Id c = k) cs" and n: "map_of cs k0 = None"
    by (auto simp: map_of_eq_None_iff)
  from "2.IH" [OF d a] have ih: "map_of (chats (offlineLoop ?s1 cs)) k =
     (case map_of cs k of
        Some c \<Rightarrow>
          Some (c\<lparr>Chat_Offline := True,
                   Chat_Content := (case map_of (chats ?s1) k of
                                      Some c0 \<Rightarrow> Chat_Content c0
                                    | None \<Rightarrow> Chat_Content c)\<rparr>)
      | None \<Rightarrow> map_of (chats ?s1) k)" .
  show ?case
  proof (cases "k = k0")
    case True
    with ih n id show ?thesis
      by (auto simp: map_of_storeChat split: option.splits)
  next
    case False
    with ih id show ?thesis
      by (auto simp: map_of_storeChat split: option.splits)
  qed
qed

lemma offlineLoop_order:
  assumes "distinct (map fst cs)" and "list_all (\<lambda>(k, c). Chat_Id c = k) cs"
    and "mset cs' = mset cs"
  shows "map_of (chats (offlineLoop s cs')) = map_of (chats (offlineLoop s cs))"
proof -
  from assms(3) have "mset (map fst cs') = mset (map fst cs)" by simp
  with assms(1) have d: "distinct (map fst cs')"
    by (metis mset_eq_imp_distinct_iff)
  from assms(3) have e: "set cs' = set cs" by (rule mset_eq_setD)
  with assms(2) have a: "list_all (\<lambda>(k, c). Chat_Id c = k) cs'"
    by (simp add: list_all_iff)
  from d assms(1) e have "map_of cs' = map_of cs"
    by (simp add: map_of_inject_set)
  then show ?thesis
    by (intro ext) (simp add: offlineLoop_result [OF d a] offlineLoop_result [OF assms(1,2)])
qed

lemma RefreshUsers_result:
  assumes "storeInv s"
  shows "fst (RefreshUsers s users) = None
    \<and> currentUser (snd (RefreshUsers s users)) = currentUser s
    \<and> storeInv (snd (RefreshUsers s users))
    \<and> map_of (chats (snd (RefreshUsers s users))) k =
        (case lastFor (currentUser s) users k of
           Some u \<Rightarrow> Some (builtChat (currentUser s) u (contentOf s k))
         | None \<Rightarrow> map_option (\<lambda>c. c\<lparr>Chat_Offline := True\<rparr>) (map_of (chats s) k))"
proof -
  from refreshLoop_result [of s "GetChats s" users] obtain s' snapshot' where
    r: "refreshLoop s (GetChats s) users = (None, s', snapshot')"
    and cu: "currentUser s' = currentUser s"
    and inv: "storeInv s \<longrightarrow> storeInv s'"
    and m: "\<And>k. map_of (chats s') k =
        (case lastFor (currentUser s) users k of
           Some u \<Rightarrow> Some (builtChat (currentUser s) u (contentOf s k))
         | None \<Rightarrow> map_of (chats s) k)"
    and sn: "\<And>k. map_of snapshot' k =
        (if lastFor (currentUser s) users k = None then map_of (GetChats s) k else None)"
    and di: "distinct (map fst (GetChats s)) \<longrightarrow> distinct (map fst snapshot')"
    and al: "\<And>P. list_all P (GetChats s) \<longrightarrow> list_all P snapshot'"
    by blast
  have R: "RefreshUsers s users = (None, offlineLoop s' snapshot')"
    using r by (simp add: RefreshUsers_def)
  from assms di have d: "distinct (map fst snapshot')"
    by (simp add: storeInv_def GetChats_def)
  from assms al [of "\<lambda>(k, c). Chat_Id c = k"] have a: "list_all (\<lambda>(k, c). Chat_Id c = k) snapshot'"
    by (simp add: storeInv_def GetChats_def)
  have "map_of (chats (offlineLoop s' snapshot')) k =
        (case lastFor (currentUser s) users k of
           Some u \<Rightarrow> Some (builtChat (currentUser s) u (contentOf s k))
         | None \<Rightarrow> map_option (\<lambda>c. c\<lparr>Chat_Offline := True\<rparr>) (map_of (chats s) k))"
    using m [of k] sn [of k]
    by (auto simp: offlineLoop_result [OF d a] GetChats_def split: option.splits)
  with R cu inv assms show ?thesis
    by (simp add: storeInv_offlineLoop)
qed


lemma refreshLoop_skips:
  "refreshLoop s snapshot users =
   refreshLoop s snapshot (filter (\<lambda>u. User_Id u \<noteq> User_Id (currentUser s)) users)"
proof (induction users arbitrary: s snapshot)
  case Nil
  show ?case by simp
next
  case (Cons u us)
  show ?case
  proof (cases "User_Id u = User_Id (currentUser s)")
    case True
    then show ?thesis using Cons.IH [of s snapshot] by simp
  next
    case False
    then show ?thesis
      using Cons.IH [of "storeChat s (builtChat (currentUser s) u [])"]
      by (simp add: buildChat_single)
  qed
qed

lemma RefreshUsers_never_fails: "fst (RefreshUsers s users) = None"
proof -
  from refreshLoop_result [of s "GetChats s" users] obtain s' snapshot' where
    "refreshLoop s (GetChats s) users = (None, s', snapshot')" by blast
  then show ?thesis by (simp add: RefreshUsers_def)
qed

subsection \<open>Adding a chat line\<close>

lemma AddChatLine_eq:
  "AddChatLine sortSlice s m =
     (case map_of (chats s) (Message_ChatId m) of
        None \<Rightarrow> (Some (ChatNotFoundErr (Message_ChatId m)), s)
      | Some c \<Rightarrow>
          if Message_UserId m \<notin> participantIds c
          then (Some (UserNotInChatErr (Message_UserId m) (Message_ChatId m)), s)
          else (None,
                s\<lparr>chats := AList.update (Message_ChatId m)
                   (c\<lparr>Chat_Content := sortSlice atBefore
                        (Chat_Content c @
                         [m\<lparr>Message_UserName := rosterName c (Message_UserId m)\<rparr>])\<rparr>)
                   (chats s)\<rparr>))"
proof (cases "map_of (chats s) (Message_ChatId m)")
  case None
  then show ?thesis by (simp add: AddChatLine_def)
next
  case (Some c)
  show ?thesis
  proof (cases "GetUser c (Message_UserId m)")
    case None
    then have "Message_UserId m \<notin> participantIds c" by (simp add: GetUser_None)
    with Some None show ?thesis by (simp add: AddChatLine_def)
  next
    case u: (Some u)
    then have "Message_UserId m \<in> participantIds c"
      using GetUser_None [of c "Message_UserId m"] by auto
    with Some u GetUser_Some [OF u] show ?thesis
      by (simp add: AddChatLine_def Let_def)
  qed
qed

lemma currentUser_AddChatLine [simp]:
  "currentUser (snd (AddChatLine sortSlice s m)) = currentUser s"
  by (simp add: AddChatLine_eq split: option.splits)

lemma storeInv_AddChatLine:
  assumes "storeInv s"
  shows "storeInv (snd (AddChatLine sortSlice s m))"
proof (cases "map_of (chats s) (Message_ChatId m)")
  case None
  with assms show ?thesis by (simp add: AddChatLine_eq)
next
  case (Some c)
  with assms have "Chat_Id c = Message_ChatId m" by (rule storeInv_map_of)
  with assms Some show ?thesis
    by (auto simp: AddChatLine_eq storeInv_def distinct_update intro!: list_all_update)
qed

subsection \<open>Sorting by time\<close>

lemma sorted_by_At:
  "sorted_wrt (\<lambda>a b. \<not> atBefore b a) xs \<longleftrightarrow> sorted (map Message_At xs)"
  by (simp add: sorted_map atBefore_def not_less)

lemma mset_insertLess: "mset (insertLess lt x ys) = add_mset x (mset ys)"
  by (induction ys) (simp_all del: list_ex_Cons_iff)

lemma set_insertLess: "set (insertLess lt x ys) = insert x (set ys)"
  using mset_insertLess [of lt x ys, THEN arg_cong, of set_mset] by simp

lemma sorted_insertLess:
  "sorted (map Message_At ys) \<Longrightarrow> sorted (map Message_At (insertLess atBefore x ys))"
proof (induction ys)
  case Nil
  show ?case by simp
next
  case (Cons y ys)
  show ?case
  proof (cases "list_ex (\<lambda>z. \<not> atBefore x z) (y # ys)")
    case True
    then obtain z where z: "z \<in> set (y # ys)" "Message_At z \<le> Message_At x"
      by (auto simp: list_ex_iff atBefore_def not_less)
    from Cons.prems z(1) have "Message_At y \<le> Message_At z" by auto
    with z(2) have "Message_At y \<le> Message_At x" by simp
    with Cons True show ?thesis
      by (auto simp: set_insertLess simp del: list_ex_Cons_iff)
  next
    case False
    then have "\<forall>z \<in> set (y # ys). Message_At x < Message_At z"
      by (auto simp: list_ex_iff atBefore_def)
    with Cons.prems False show ?thesis
      by (auto simp: less_imp_le simp del: list_ex_Cons_iff)
  qed
qed

lemma insertionSort_foldl:
  "mset (foldl (\<lambda>acc x. insertLess lt x acc) ys xs) = mset ys + mset xs"
  by (induction xs arbitrary: ys) (simp_all add: mset_insertLess)

lemma insertionSort_sorted_foldl:
  "sorted (map Message_At ys) \<Longrightarrow>
   sorted (map Message_At (foldl (\<lambda>acc x. insertLess atBefore x acc) ys xs))"
  by (induction xs arbitrary: ys) (simp_all add: sorted_insertLess)

lemma sortsByAt_insertionSort: "sortsByAt insertionSort"
  by (simp add: sortsByAt_def insertionSort_def insertionSort_foldl sorted_by_At
      insertionSort_sorted_foldl)


subsection \<open>Invariants of the reachable stores\<close>

lemma list_all_chats_iff:
  "storeInv s \<Longrightarrow>
   list_all (\<lambda>(k, c). P c) (chats s) \<longleftrightarrow> (\<forall>k c. map_of (chats s) k = Some c \<longrightarrow> P c)"
  by (auto simp: storeInv_def list_all_iff dest: map_of_SomeD)

lemma RefreshUsers_usersExcludeOwner:
  assumes "storeInv s" and "usersExcludeOwner s"
  shows "usersExcludeOwner (snd (RefreshUsers s users))"
proof -
  let ?s' = "snd (RefreshUsers s users)"
  note R = RefreshUsers_result [OF assms(1), of users]
  have inv: "storeInv ?s'" and cu: "currentUser ?s' = currentUser s" using R by simp_all
  have old: "map_of (chats s) k = Some c \<Longrightarrow>
      list_all (\<lambda>u. User_Id u \<noteq> User_Id (currentUser s)) (Chat_Users c)" for k c
    using assms by (simp add: usersExcludeOwner_def list_all_chats_iff)
  have "list_all (\<lambda>u. User_Id u \<noteq> User_Id (currentUser s)) (Chat_Users c)"
    if "map_of (chats ?s') k = Some c" for k c
  proof (cases "lastFor (currentUser s) users k")
    case None
    with that R [of k] obtain c0 where "map_of (chats s) k = Some c0"
      and "c = c0\<lparr>Chat_Offline := True\<rparr>" by auto
    with old [of k c0] show ?thesis by simp
  next
    case (Some u)
    with that R [of k] have "c = builtChat (currentUser s) u (contentOf s k)" by simp
    with lastFor_Some [OF Some] show ?thesis by (simp add: builtChat_def)
  qed
  then show ?thesis
    by (simp add: usersExcludeOwner_def list_all_chats_iff [OF inv] cu)
qed

lemma RefreshUsers_contentsSorted:
  assumes "storeInv s" and "contentsSorted s"
  shows "contentsSorted (snd (RefreshUsers s users))"
proof -
  let ?s' = "snd (RefreshUsers s users)"
  note R = RefreshUsers_result [OF assms(1), of users]
  have inv: "storeInv ?s'" using R by simp
  have old: "map_of (chats s) k = Some c \<Longrightarrow> sorted (map Message_At (Chat_Content c))" for k c
    using assms by (simp add: contentsSorted_def list_all_chats_iff)
  then have co: "sorted (map Message_At (contentOf s k))" for k
    by (simp add: contentOf_def split: option.splits)
  have "sorted (map Message_At (Chat_Content c))" if "map_of (chats ?s') k = Some c" for k c
  proof (cases "lastFor (currentUser s) users k")
    case None
    with that R [of k] obtain c0 where "map_of (chats s) k = Some c0"
      and "c = c0\<lparr>Chat_Offline := True\<rparr>" by auto
    with old [of k c0] show ?thesis by simp
  next
    case (Some u)
    with that R [of k] have "c = builtChat (currentUser s) u (contentOf s k)" by simp
    with co [of k] show ?thesis by (simp add: builtChat_def)
  qed
  then show ?thesis
    by (simp add: contentsSorted_def list_all_chats_iff [OF inv])
qed

lemma AddChatLine_usersExcludeOwner:
  assumes "usersExcludeOwner s"
  shows "usersExcludeOwner (snd (AddChatLine sortSlice s m))"
proof (cases "map_of (chats s) (Message_ChatId m)")
  case None
  with assms show ?thesis by (simp add: AddChatLine_eq)
next
  case (Some c)
  with assms have "list_all (\<lambda>u. User_Id u \<noteq> User_Id (currentUser s)) (Chat_Users c)"
    unfolding usersExcludeOwner_def by (auto dest: list_all_map_of)
  with assms Some show ?thesis
    by (auto simp: AddChatLine_eq usersExcludeOwner_def intro!: list_all_update)
qed

lemma AddChatLine_contentsSorted:
  assumes "sortsByAt sortSlice" and "contentsSorted s"
  shows "contentsSorted (snd (AddChatLine sortSlice s m))"
proof (cases "map_of (chats s) (Message_ChatId m)")
  case None
  with assms show ?thesis by (simp add: AddChatLine_eq)
next
  case (Some c)
  from assms(1) have "sorted (map Message_At (sortSlice atBefore xs))" for xs
    by (simp add: sortsByAt_def sorted_by_At)
  with assms Some show ?thesis
    by (auto simp: AddChatLine_eq contentsSorted_def intro!: list_all_update)
qed

lemma reachable_invariants:
  assumes "reachable sortSlice cu s"
  shows "storeInv s \<and> currentUser s = cu \<and> usersExcludeOwner s
    \<and> (sortsByAt sortSlice \<longrightarrow> contentsSorted s)"
  using assms
proof (induction rule: reachable.induct)
  case init
  show ?case
    by (simp add: NewStore_def storeInv_def usersExcludeOwner_def contentsSorted_def)
next
  case (refresh s users)
  then show ?case
    using RefreshUsers_result [of s users]
    by (simp add: RefreshUsers_usersExcludeOwner RefreshUsers_contentsSorted)
next
  case (addLine s m)
  then show ?case
    by (simp add: storeInv_AddChatLine AddChatLine_usersExcludeOwner AddChatLine_contentsSorted)
qed

subsection \<open>The scenarios, evaluated\<close>

lemma user_ids:
  "User_Id userA = ''aaa''" "User_Id userB = ''bbb''" "User_Id userC = ''ccc''"
  "User_Name userA = ''A''" "User_Name userB = ''B''" "User_Name userC = ''C''"
  by (simp_all add: userA_def userB_def userC_def)

lemma pair_ids:
  "pairChatId userB userA = ''YWFhX2JiYg==''"
  "pairChatId userA userB = ''YWFhX2JiYg==''"
  "pairChatId userB userC = ''YmJiX2NjYw==''"
  by (simp_all add: pairChatId_def user_ids b64_def encodeStd_def)

lemma builtChat_sel [simp]:
  "Chat_Id (builtChat cu u content) = pairChatId cu u"
  "Chat_OwnerUser (builtChat cu u content) = cu"
  "Chat_Users (builtChat cu u content) = [u]"
  "Chat_Content (builtChat cu u content) = content"
  "Chat_Offline (builtChat cu u content) = False"
  "(builtChat cu u content)\<lparr>Chat_Content := content'\<rparr> = builtChat cu u content'"
  by (simp_all add: builtChat_def)

lemma RefreshUsers_eval:
  "RefreshUsers s users =
     (case refreshLoop s (chats s) users of
        (Some err, s', snapshot) \<Rightarrow> (Some err, s')
      | (None, s', snapshot) \<Rightarrow> (None, offlineLoop s' snapshot))"
  by (simp add: RefreshUsers_def GetChats_def)

lemma storeB0_eq:
  "storeB0 = \<lparr>currentUser = userB, chats = [(''YWFhX2JiYg=='', builtChat userB userA [])]\<rparr>"
  by (simp add: storeB0_def RefreshUsers_eval NewStore_def user_ids buildChat_single
      storeChat_def pair_ids)

lemma helloMsg_fields:
  "Message_ChatId helloMsg = ''YWFhX2JiYg==''" "Message_UserId helloMsg = ''aaa''"
  "Message_UserName helloMsg = ''Mallory''" "Message_At helloMsg = 1000"
  by (simp_all add: helloMsg_def)

lemma roster_BA: "rosterName (builtChat userB userA content) ''aaa'' = ''A''"
  by (simp add: rosterName_def builtChat_def user_ids)

lemma participants_BA: "participantIds (builtChat userB userA content) = {''bbb'', ''aaa''}"
  by (simp add: participantIds_def builtChat_def user_ids)

lemma insertionSort_single: "insertionSort lt [x] = [x]"
  by (simp add: insertionSort_def)

lemma storeB1_eq:
  "AddChatLine insertionSort storeB0 helloMsg =
     (None, \<lparr>currentUser = userB,
             chats = [(''YWFhX2JiYg=='',
                       builtChat userB userA [helloMsg\<lparr>Message_UserName := ''A''\<rparr>])]\<rparr>)"
  by (simp add: AddChatLine_eq storeB0_eq helloMsg_fields participants_BA roster_BA
      insertionSort_single)


lemma storeB1_simp:
  "storeB1 = \<lparr>currentUser = userB,
             chats = [(''YWFhX2JiYg=='',
                       builtChat userB userA [helloMsg\<lparr>Message_UserName := ''A''\<rparr>])]\<rparr>"
  by (simp add: storeB1_def storeB1_eq)

lemma storeB1_refreshed:
  "RefreshUsers storeB1 [userB, userC] =
     (None, \<lparr>currentUser = userB,
             chats = [(''YWFhX2JiYg=='',
                       (builtChat userB userA [helloMsg\<lparr>Message_UserName := ''A''\<rparr>])
                         \<lparr>Chat_Offline := True\<rparr>),
                      (''YmJiX2NjYw=='', builtChat userB userC [])]\<rparr>)"
  by (simp add: storeB1_simp RefreshUsers_eval user_ids buildChat_single storeChat_def
      pair_ids)

lemma storeB1_refreshed_twice:
  "RefreshUsers (snd (RefreshUsers storeB1 [userB, userC])) [userB, userC] =
     RefreshUsers storeB1 [userB, userC]"
  by (simp add: storeB1_refreshed)
    (simp add: RefreshUsers_eval user_ids buildChat_single storeChat_def pair_ids)

lemma storeInv_storeB1: "storeInv storeB1"
  by (simp add: storeB1_simp storeInv_def pair_ids)



lemma refresh_with_self:
  "RefreshUsers (NewStore userA) [userB, userA] =
     (None, \<lparr>currentUser = userA, chats = [(''YWFhX2JiYg=='', builtChat userA userB [])]\<rparr>)"
  by (simp add: RefreshUsers_eval NewStore_def user_ids buildChat_single storeChat_def
      pair_ids)

text \<open>
  Claim C3. \<open>AddChatLine\<close> returns \<open>ChatNotFoundErr\<close> exactly when no chat is stored under
  the message's chat id, \<open>UserNotInChatErr\<close> exactly when the chat exists and the
  message's user id is neither a remote user's nor the owner's, and succeeds otherwise;
  the two errors leave the store as it was. On success the chat's content is the sorted
  former content with the message added, and the added message carries the name that
  the chat's roster has for its user id (the first remote user with the id, else the
  owner), whatever user name the caller supplied.
\<close>

theorem addChatLine_outcomes:
  "AddChatLine sortSlice s m =
     (case map_of (chats s) (Message_ChatId m) of
        None \<Rightarrow> (Some (ChatNotFoundErr (Message_ChatId m)), s)
      | Some c \<Rightarrow>
          if Message_UserId m \<notin> participantIds c
          then (Some (UserNotInChatErr (Message_UserId m) (Message_ChatId m)), s)
          else (None,
                s\<lparr>chats := AList.update (Message_ChatId m)
                   (c\<lparr>Chat_Content := sortSlice atBefore
                        (Chat_Content c @
                         [m\<lparr>Message_UserName := rosterName c (Message_UserId m)\<rparr>])\<rparr>)
                   (chats s)\<rparr>))
   \<and> ((\<exists>i. fst (AddChatLine sortSlice s m) = Some (ChatNotFoundErr i)) \<longleftrightarrow>
          map_of (chats s) (Message_ChatId m) = None)
   \<and> ((\<exists>i j. fst (AddChatLine sortSlice s m) = Some (UserNotInChatErr i j)) \<longleftrightarrow>
          (\<exists>c. map_of (chats s) (Message_ChatId m) = Some c \<and>
               Message_UserId m \<notin> participantIds c))
   \<and> (fst (AddChatLine sortSlice s m) = None \<longleftrightarrow>
          (\<exists>c. map_of (chats s) (Message_ChatId m) = Some c \<and>
               Message_UserId m \<in> participantIds c))
   \<and> AddChatLine sortSlice s (m\<lparr>Message_UserName := name\<rparr>) = AddChatLine sortSlice s m
   \<and> (sortsByAt sortSlice \<and> map_of (chats s) (Message_ChatId m) = Some c \<and>
        Message_UserId m \<in> participantIds c \<longrightarrow>
          (\<exists>c'. map_of (chats (snd (AddChatLine sortSlice s m))) (Message_ChatId m) = Some c' \<and>
                mset (Chat_Content c') =
                  add_mset (m\<lparr>Message_UserName := rosterName c (Message_UserId m)\<rparr>)
                    (mset (Chat_Content c))))"
proof (intro conjI impI)
  show "AddChatLine sortSlice s m =
     (case map_of (chats s) (Message_ChatId m) of
        None \<Rightarrow> (Some (ChatNotFoundErr (Message_ChatId m)), s)
      | Some c \<Rightarrow>
          if Message_UserId m \<notin> participantIds c
          then (Some (UserNotInChatErr (Message_UserId m) (Message_ChatId m)), s)
          else (None,
                s\<lparr>chats := AList.update (Message_ChatId m)
                   (c\<lparr>Chat_Content := sortSlice atBefore
                        (Chat_Content c @
                         [m\<lparr>Message_UserName := rosterName c (Message_UserId m)\<rparr>])\<rparr>)
                   (chats s)\<rparr>))"
    by (rule AddChatLine_eq)
next
  show "(\<exists>i. fst (AddChatLine sortSlice s m) = Some (ChatNotFoundErr i)) \<longleftrightarrow>
          map_of (chats s) (Message_ChatId m) = None"
    by (cases "map_of (chats s) (Message_ChatId m)") (simp_all add: AddChatLine_eq)
next
  show "(\<exists>i j. fst (AddChatLine sortSlice s m) = Some (UserNotInChatErr i j)) \<longleftrightarrow>
          (\<exists>c. map_of (chats s) (Message_ChatId m) = Some c \<and>
               Message_UserId m \<notin> participantIds c)"
    by (cases "map_of (chats s) (Message_ChatId m)") (simp_all add: AddChatLine_eq)
next
  show "fst (AddChatLine sortSlice s m) = None \<longleftrightarrow>
          (\<exists>c. map_of (chats s) (Message_ChatId m) = Some c \<and>
               Message_UserId m \<in> participantIds c)"
    by (cases "map_of (chats s) (Message_ChatId m)") (simp_all add: AddChatLine_eq)
next
  show "AddChatLine sortSlice s (m\<lparr>Message_UserName := name\<rparr>) = AddChatLine sortSlice s m"
    by (cases "map_of (chats s) (Message_ChatId m)") (simp_all add: AddChatLine_eq)
next
  assume h: "sortsByAt sortSlice \<and> map_of (chats s) (Message_ChatId m) = Some c \<and>
        Message_UserId m \<in> participantIds c"
  then have "mset (sortSlice atBefore xs) = mset xs" for xs
    by (simp add: sortsByAt_def)
  with h show "\<exists>c'. map_of (chats (snd (AddChatLine sortSlice s m))) (Message_ChatId m) = Some c' \<and>
                mset (Chat_Content c') =
                  add_mset (m\<lparr>Message_UserName := rosterName c (Message_UserId m)\<rparr>)
                    (mset (Chat_Content c))"
    by (simp add: AddChatLine_eq update_conv')
qed

theorem addChatLine_outcomes_witness:
  "sortsByAt insertionSort
   \<and> map_of (chats storeB0) (Message_ChatId helloMsg) = Some (builtChat userB userA [])
   \<and> Message_UserId helloMsg \<in> participantIds (builtChat userB userA [])
   \<and> Message_UserName helloMsg = ''Mallory''
   \<and> rosterName (builtChat userB userA []) (Message_UserId helloMsg) = ''A''
   \<and> AddChatLine insertionSort storeB0 helloMsg =
       (None, \<lparr>currentUser = userB,
               chats = [(''YWFhX2JiYg=='',
                         builtChat userB userA [helloMsg\<lparr>Message_UserName := ''A''\<rparr>])]\<rparr>)
   \<and> AddChatLine insertionSort storeB0 (helloMsg\<lparr>Message_UserId := ''ccc''\<rparr>) =
       (Some (UserNotInChatErr ''ccc'' ''YWFhX2JiYg==''), storeB0)
   \<and> AddChatLine insertionSort storeB0 (helloMsg\<lparr>Message_ChatId := ''nochat''\<rparr>) =
       (Some (ChatNotFoundErr ''nochat''), storeB0)"
proof -
  have m: "map_of (chats storeB0) (Message_ChatId helloMsg) = Some (builtChat userB userA [])"
    by (simp add: storeB0_eq helloMsg_fields)
  have p: "Message_UserId helloMsg \<in> participantIds (builtChat userB userA [])"
    by (simp add: participants_BA helloMsg_fields)
  note t = addChatLine_outcomes [of insertionSort storeB0]
  from t [of helloMsg _ "builtChat userB userA []"]
    t [of "helloMsg\<lparr>Message_UserId := ''ccc''\<rparr>"]
    t [of "helloMsg\<lparr>Message_ChatId := ''nochat''\<rparr>"]
    sortsByAt_insertionSort m p
  show ?thesis
    by (simp add: storeB0_eq helloMsg_fields participants_BA roster_BA insertionSort_single)
qed



text \<open>
  Claim C5. \<open>RefreshUsers\<close> on a store returns no error. Afterwards every supplied user
  whose id is not the current user's has a chat under the chat id of the current user
  with that user, and the chat is not offline; every chat that was stored under an id
  that is the chat id of no such supplied user is offline; and every chat that was
  stored is still stored under its id with the content it had.
\<close>

theorem refreshUsers_reconciles:
  assumes "storeInv s"
  shows "fst (RefreshUsers s users) = None
   \<and> (\<forall>u \<in> set users. User_Id u \<noteq> User_Id (currentUser s) \<longrightarrow>
         (\<exists>c. map_of (chats (snd (RefreshUsers s users))) (pairChatId (currentUser s) u) = Some c \<and>
              \<not> Chat_Offline c))
   \<and> (\<forall>k c. map_of (chats s) k = Some c \<and>
          (\<forall>u \<in> set users. User_Id u = User_Id (currentUser s) \<or> pairChatId (currentUser s) u \<noteq> k)
          \<longrightarrow> (\<exists>c'. map_of (chats (snd (RefreshUsers s users))) k = Some c' \<and> Chat_Offline c'))
   \<and> (\<forall>k c. map_of (chats s) k = Some c \<longrightarrow>
          (\<exists>c'. map_of (chats (snd (RefreshUsers s users))) k = Some c' \<and>
                Chat_Content c' = Chat_Content c))"
proof (intro conjI ballI allI impI)
  show "fst (RefreshUsers s users) = None" by (rule RefreshUsers_never_fails)
next
  fix u
  assume u: "u \<in> set users" "User_Id u \<noteq> User_Id (currentUser s)"
  let ?k = "pairChatId (currentUser s) u"
  from u have "lastFor (currentUser s) users ?k \<noteq> None"
    by (auto simp: lastFor_None)
  then obtain u' where "lastFor (currentUser s) users ?k = Some u'" by auto
  with RefreshUsers_result [OF assms, of users ?k]
  show "\<exists>c. map_of (chats (snd (RefreshUsers s users))) ?k = Some c \<and> \<not> Chat_Offline c"
    by simp
next
  fix k c
  assume h: "map_of (chats s) k = Some c \<and>
          (\<forall>u \<in> set users. User_Id u = User_Id (currentUser s) \<or> pairChatId (currentUser s) u \<noteq> k)"
  then have "lastFor (currentUser s) users k = None"
    by (simp add: lastFor_None)
  with h RefreshUsers_result [OF assms, of users k]
  show "\<exists>c'. map_of (chats (snd (RefreshUsers s users))) k = Some c' \<and> Chat_Offline c'"
    by simp
next
  fix k c
  assume h: "map_of (chats s) k = Some c"
  then have "contentOf s k = Chat_Content c" by (simp add: contentOf_def)
  with h RefreshUsers_result [OF assms, of users k]
  show "\<exists>c'. map_of (chats (snd (RefreshUsers s users))) k = Some c' \<and>
                Chat_Content c' = Chat_Content c"
    by (cases "lastFor (currentUser s) users k") simp_all
qed

theorem refreshUsers_reconciles_witness:
  "storeInv storeB1
   \<and> chats storeB1 =
       [(''YWFhX2JiYg=='', builtChat userB userA [helloMsg\<lparr>Message_UserName := ''A''\<rparr>])]
   \<and> userC \<in> set [userB, userC]
   \<and> User_Id userC \<noteq> User_Id (currentUser storeB1)
   \<and> User_Id userB = User_Id (currentUser storeB1)
   \<and> pairChatId (currentUser storeB1) userC = ''YmJiX2NjYw==''
   \<and> pairChatId (currentUser storeB1) userC \<noteq> ''YWFhX2JiYg==''
   \<and> fst (RefreshUsers storeB1 [userB, userC]) = None
   \<and> (\<exists>c. map_of (chats (snd (RefreshUsers storeB1 [userB, userC]))) ''YmJiX2NjYw=='' = Some c \<and>
           \<not> Chat_Offline c)
   \<and> (\<exists>c'. map_of (chats (snd (RefreshUsers storeB1 [userB, userC]))) ''YWFhX2JiYg=='' = Some c' \<and>
            Chat_Offline c')
   \<and> (\<exists>c'. map_of (chats (snd (RefreshUsers storeB1 [userB, userC]))) ''YWFhX2JiYg=='' = Some c' \<and>
            Chat_Content c' = [helloMsg\<lparr>Message_UserName := ''A''\<rparr>])
   \<and> RefreshUsers storeB1 [userB, userC] =
     (None, \<lparr>currentUser = userB,
             chats = [(''YWFhX2JiYg=='',
                       (builtChat userB userA [helloMsg\<lparr>Message_UserName := ''A''\<rparr>])
                         \<lparr>Chat_Offline := True\<rparr>),
                      (''YmJiX2NjYw=='', builtChat userB userC [])]\<rparr>)"
proof -
  let ?s' = "snd (RefreshUsers storeB1 [userB, userC])"
  let ?cA = "builtChat userB userA [helloMsg\<lparr>Message_UserName := ''A''\<rparr>]"
  note t = refreshUsers_reconciles [OF storeInv_storeB1, of "[userB, userC]"]
  have c: "chats storeB1 = [(''YWFhX2JiYg=='', ?cA)]"
    and i: "pairChatId (currentUser storeB1) userC = ''YmJiX2NjYw==''"
      "User_Id userC \<noteq> User_Id (currentUser storeB1)"
      "User_Id userB = User_Id (currentUser storeB1)"
    by (simp_all add: storeB1_simp pair_ids user_ids)
  have m: "map_of (chats storeB1) ''YWFhX2JiYg=='' = Some ?cA"
    by (simp add: c)
  have n: "\<forall>u \<in> set [userB, userC].
      User_Id u = User_Id (currentUser storeB1) \<or>
      pairChatId (currentUser storeB1) u \<noteq> ''YWFhX2JiYg=='' "
    using i by simp
  from t have 1: "fst (RefreshUsers storeB1 [userB, userC]) = None"
    by (rule conjunct1)
  from t have "\<forall>u \<in> set [userB, userC]. User_Id u \<noteq> User_Id (currentUser storeB1) \<longrightarrow>
      (\<exists>c. map_of (chats ?s') (pairChatId (currentUser storeB1) u) = Some c \<and> \<not> Chat_Offline c)"
    by (rule conjunct2 [THEN conjunct1])
  then have 2: "\<exists>c. map_of (chats ?s') ''YmJiX2NjYw=='' = Some c \<and> \<not> Chat_Offline c"
    using i by simp
  from t have "\<forall>k c. map_of (chats storeB1) k = Some c \<and>
      (\<forall>u \<in> set [userB, userC]. User_Id u = User_Id (currentUser storeB1) \<or>
          pairChatId (currentUser storeB1) u \<noteq> k)
      \<longrightarrow> (\<exists>c'. map_of (chats ?s') k = Some c' \<and> Chat_Offline c')"
    by (rule conjunct2 [THEN conjunct2, THEN conjunct1])
  with m n have 3: "\<exists>c'. map_of (chats ?s') ''YWFhX2JiYg=='' = Some c' \<and> Chat_Offline c'"
    by blast
  from t have "\<forall>k c. map_of (chats storeB1) k = Some c \<longrightarrow>
      (\<exists>c'. map_of (chats ?s') k = Some c' \<and> Chat_Content c' = Chat_Content c)"
    by (rule conjunct2 [THEN conjunct2, THEN conjunct2])
  with m have "\<exists>c'. map_of (chats ?s') ''YWFhX2JiYg=='' = Some c' \<and>
      Chat_Content c' = Chat_Content ?cA"
    by blast
  then have 4: "\<exists>c'. map_of (chats ?s') ''YWFhX2JiYg=='' = Some c' \<and>
      Chat_Content c' = [helloMsg\<lparr>Message_UserName := ''A''\<rparr>]"
    by simp
  have 6: "pairChatId (currentUser storeB1) userC \<noteq> ''YWFhX2JiYg=='' " using i(1) by simp
  have 7: "userC \<in> set [userB, userC]" by simp
  from storeInv_storeB1 c i 1 2 3 4 6 7 storeB1_refreshed show ?thesis
    by (simp only: simp_thms)
qed

text \<open>
  Claim C6. A second \<open>RefreshUsers\<close> with the same list changes nothing: it returns no
  error, and the chats map (ids, users, offline flags and contents) and the current
  user are those after the first call.
\<close>

theorem refreshUsers_idempotent:
  assumes "storeInv s"
  shows "fst (RefreshUsers (snd (RefreshUsers s users)) users) = None
   \<and> map_of (chats (snd (RefreshUsers (snd (RefreshUsers s users)) users))) =
       map_of (chats (snd (RefreshUsers s users)))
   \<and> currentUser (snd (RefreshUsers (snd (RefreshUsers s users)) users)) =
       currentUser (snd (RefreshUsers s users))"
proof -
  let ?s1 = "snd (RefreshUsers s users)"
  let ?s2 = "snd (RefreshUsers ?s1 users)"
  note R1 = RefreshUsers_result [OF assms, of users]
  have inv1: "storeInv ?s1" and cu1: "currentUser ?s1 = currentUser s" using R1 by simp_all
  note R2 = RefreshUsers_result [OF inv1, of users]
  have "map_of (chats ?s2) k = map_of (chats ?s1) k" for k
  proof (cases "lastFor (currentUser s) users k")
    case None
    with R1 [of k] R2 [of k] cu1 show ?thesis
      by (cases "map_of (chats s) k") simp_all
  next
    case (Some u)
    with R1 [of k] have "contentOf ?s1 k = contentOf s k"
      by (simp add: contentOf_def builtChat_def)
    with Some R1 [of k] R2 [of k] cu1 show ?thesis by simp
  qed
  then have "map_of (chats ?s2) = map_of (chats ?s1)" by (rule ext)
  with R2 show ?thesis by (simp add: RefreshUsers_never_fails)
qed

theorem refreshUsers_idempotent_witness:
  "storeInv storeB1
   \<and> snd (RefreshUsers storeB1 [userB, userC]) =
       \<lparr>currentUser = userB,
        chats = [(''YWFhX2JiYg=='',
                  (builtChat userB userA [helloMsg\<lparr>Message_UserName := ''A''\<rparr>])
                    \<lparr>Chat_Offline := True\<rparr>),
                 (''YmJiX2NjYw=='', builtChat userB userC [])]\<rparr>
   \<and> fst (RefreshUsers (snd (RefreshUsers storeB1 [userB, userC])) [userB, userC]) = None
   \<and> map_of (chats (snd (RefreshUsers (snd (RefreshUsers storeB1 [userB, userC])) [userB, userC]))) =
       map_of (chats (snd (RefreshUsers storeB1 [userB, userC])))
   \<and> currentUser (snd (RefreshUsers (snd (RefreshUsers storeB1 [userB, userC])) [userB, userC])) =
       currentUser (snd (RefreshUsers storeB1 [userB, userC]))
   \<and> RefreshUsers (snd (RefreshUsers storeB1 [userB, userC])) [userB, userC] =
       RefreshUsers storeB1 [userB, userC]"
proof -
  note t = refreshUsers_idempotent [OF storeInv_storeB1, of "[userB, userC]"]
  have e: "snd (RefreshUsers storeB1 [userB, userC]) =
       \<lparr>currentUser = userB,
        chats = [(''YWFhX2JiYg=='',
                  (builtChat userB userA [helloMsg\<lparr>Message_UserName := ''A''\<rparr>])
                    \<lparr>Chat_Offline := True\<rparr>),
                 (''YmJiX2NjYw=='', builtChat userB userC [])]\<rparr>"
    by (simp add: storeB1_refreshed)
  from t [THEN conjunct1] t [THEN conjunct2, THEN conjunct1] t [THEN conjunct2, THEN conjunct2]
    storeInv_storeB1 e storeB1_refreshed_twice
  show ?thesis by (simp only: simp_thms)
qed

text \<open>
  Claim C7, as amended. \<open>buildChat\<close> returns \<open>WrongNewChatUsersErr\<close> exactly when one of
  the supplied users has the current user's id, so a chat it builds has no such user.
  \<open>RefreshUsers\<close> never returns an error: it passes over the supplied users that have
  the current user's id, acting as on the list without them. No chat of a store that
  \<open>NewStore\<close>, \<open>RefreshUsers\<close> and \<open>AddChatLine\<close> can produce has a user with the current
  user's id.
\<close>

theorem current_user_never_in_chat:
  "(buildChat s users = Inl WrongNewChatUsersErr \<longleftrightarrow>
      User_Id (currentUser s) \<in> User_Id ` set users)
   \<and> (buildChat s users = Inr c \<longrightarrow> User_Id (currentUser s) \<notin> User_Id ` set (Chat_Users c))
   \<and> fst (RefreshUsers s users) = None
   \<and> RefreshUsers s users =
       RefreshUsers s (filter (\<lambda>u. User_Id u \<noteq> User_Id (currentUser s)) users)
   \<and> (reachable sortSlice cu s' \<and> map_of (chats s') k = Some c' \<longrightarrow>
        User_Id cu \<notin> User_Id ` set (Chat_Users c'))"
proof (intro conjI impI)
  show "buildChat s users = Inl WrongNewChatUsersErr \<longleftrightarrow>
      User_Id (currentUser s) \<in> User_Id ` set users"
    by (simp add: buildChat_eq)
next
  assume "buildChat s users = Inr c"
  then show "User_Id (currentUser s) \<notin> User_Id ` set (Chat_Users c)"
    by (auto simp: buildChat_eq split: if_splits)
next
  show "fst (RefreshUsers s users) = None" by (rule RefreshUsers_never_fails)
next
  show "RefreshUsers s users =
       RefreshUsers s (filter (\<lambda>u. User_Id u \<noteq> User_Id (currentUser s)) users)"
    using refreshLoop_skips [of s "GetChats s" users] by (simp add: RefreshUsers_def)
next
  assume h: "reachable sortSlice cu s' \<and> map_of (chats s') k = Some c'"
  with reachable_invariants [of sortSlice cu s']
  have "storeInv s'" and "currentUser s' = cu" and "usersExcludeOwner s'" by simp_all
  with h have "list_all (\<lambda>u. User_Id u \<noteq> User_Id cu) (Chat_Users c')"
    by (auto simp: usersExcludeOwner_def list_all_chats_iff)
  then show "User_Id cu \<notin> User_Id ` set (Chat_Users c')"
    by (auto simp: list_all_iff)
qed

theorem current_user_never_in_chat_witness:
  "buildChat (NewStore userA) [userB, userA] = Inl WrongNewChatUsersErr
   \<and> buildChat (NewStore userA) [userB] = Inr (builtChat userA userB [])
   \<and> reachable insertionSort userA (snd (RefreshUsers (NewStore userA) [userB, userA]))
   \<and> map_of (chats (snd (RefreshUsers (NewStore userA) [userB, userA]))) ''YWFhX2JiYg=='' =
       Some (builtChat userA userB [])
   \<and> User_Id userA \<notin> User_Id ` set (Chat_Users (builtChat userA userB []))"
proof -
  have r: "reachable insertionSort userA (snd (RefreshUsers (NewStore userA) [userB, userA]))"
    by (intro reachable.refresh reachable.init)
  have m: "map_of (chats (snd (RefreshUsers (NewStore userA) [userB, userA]))) ''YWFhX2JiYg=='' =
       Some (builtChat userA userB [])"
    by (simp add: refresh_with_self)
  have b: "buildChat (NewStore userA) [userB] = Inr (builtChat userA userB [])"
    using buildChat_single [of userB "NewStore userA"] by (simp add: NewStore_def user_ids)
  have i: "User_Id (currentUser (NewStore userA)) \<in> User_Id ` set [userB, userA]"
    by (simp add: NewStore_def)
  note t = current_user_never_in_chat [of "NewStore userA" "[userB, userA]" _
      insertionSort userA "snd (RefreshUsers (NewStore userA) [userB, userA])"
      "''YWFhX2JiYg==''" "builtChat userA userB []"]
  from t [THEN conjunct1] i have 1: "buildChat (NewStore userA) [userB, userA] = Inl WrongNewChatUsersErr"
    by blast
  from t [THEN conjunct2, THEN conjunct2, THEN conjunct2, THEN conjunct2] r m
  have 2: "User_Id userA \<notin> User_Id ` set (Chat_Users (builtChat userA userB []))"
    by blast
  from 1 2 r m b show ?thesis by blast
qed

text \<open>
  The claim as stated fails for \<open>RefreshUsers\<close>: supplied with the current user (here
  after another user, as in the repository's own test), it returns no error and stores
  the one chat of the other user.
\<close>

theorem refresh_with_current_user_counterexample:
  "userA \<in> set [userB, userA]
   \<and> currentUser (NewStore userA) = userA
   \<and> fst (RefreshUsers (NewStore userA) [userB, userA]) \<noteq> Some WrongNewChatUsersErr
   \<and> RefreshUsers (NewStore userA) [userB, userA] =
       (None, \<lparr>currentUser = userA, chats = [(''YWFhX2JiYg=='', builtChat userA userB [])]\<rparr>)"
  by (simp add: refresh_with_self) (simp add: NewStore_def)

end
